theory Spec2Isabelle
  imports Complex_Main "HOL-Library.Multiset"
begin

section \<open>Matrices, vectors and failures\<close>

text \<open>
  The two headers compute on Armadillo matrices of doubles. The model works over
  exact real arithmetic: a matrix is the list of its rows, a column vector is the list
  of its entries. A matrix without rows carries no column count, so \<open>n_cols [] = 0\<close>.
  Index matrices (\<open>arma::umat\<close>) are lists of rows of naturals, with indices counted
  from 0 as Armadillo does.

  Arithmetic is that of the reals. Where the doubles of the code leave the reals (a
  division by zero, the square root of a negative number) the code produces an infinity
  or a NaN and raises nothing; the model has HOL's total division and square root there,
  and the theorems below speak about the code where it stays within the reals.

  Every exception the code can raise is a value of \<open>failure\<close>:
  \<^item> \<open>ShapeMismatch\<close>: the \<open>std::invalid_argument\<close> raised by \<open>trapecio\<close> and
    \<open>cumtrapz\<close> ("must be matrices of the same dimension") and by the grid-length test
    of \<open>wasserstein_regression\<close>;
  \<^item> \<open>InvalidGrid\<close>: the \<open>std::invalid_argument\<close> raised by the end-point test of
    \<open>wasserstein_regression\<close>;
  \<^item> \<open>OutOfBounds\<close> and \<open>IncompatibleDimensions\<close>: the bounds and size checks
    Armadillo performs on element access, sub-matrix views and assignments;
  \<^item> \<open>SolveFailure\<close>: the linear solver found no solution.
\<close>

type_synonym vec = "real list"
type_synonym mat = "real list list"
type_synonym umat = "nat list list"

datatype failure = ShapeMismatch | InvalidGrid | OutOfBounds | IncompatibleDimensions | SolveFailure

definition n_rows :: "'a list list \<Rightarrow> nat" where
  "n_rows M = length M"

definition n_cols :: "'a list list \<Rightarrow> nat" where
  "n_cols M = (case M of [] \<Rightarrow> 0 | r # _ \<Rightarrow> length r)"

definition is_mat :: "'a list list \<Rightarrow> bool" where
  "is_mat M = list_all (\<lambda>r. length r = n_cols M) M"

definition t_mat :: "'a list list \<Rightarrow> 'a list list" where
  "t_mat M = map (\<lambda>j. map (\<lambda>r. r ! j) M) [0..<n_cols M]"

definition col_mat :: "'a list \<Rightarrow> 'a list list" where
  "col_mat v = map (\<lambda>x. [x]) v"

definition zeros :: "nat \<Rightarrow> nat \<Rightarrow> mat" where
  "zeros n m = replicate n (replicate m 0)"

definition rows_mat :: "nat \<Rightarrow> nat \<Rightarrow> 'a list list \<Rightarrow> 'a list list" where
  "rows_mat a b M = take (b + 1 - a) (drop a M)"

definition minus_vec :: "vec \<Rightarrow> vec \<Rightarrow> vec" where
  "minus_vec a b = map2 (-) a b"

definition plus_vec :: "vec \<Rightarrow> vec \<Rightarrow> vec" where
  "plus_vec a b = map2 (+) a b"

definition times_vec :: "vec \<Rightarrow> vec \<Rightarrow> vec" where
  "times_vec a b = map2 (*) a b"

definition minus_mat :: "mat \<Rightarrow> mat \<Rightarrow> mat" where
  "minus_mat A B = map2 minus_vec A B"

definition plus_mat :: "mat \<Rightarrow> mat \<Rightarrow> mat" where
  "plus_mat A B = map2 plus_vec A B"

definition times_mat :: "mat \<Rightarrow> mat \<Rightarrow> mat" where
  "times_mat A B = map2 times_vec A B"

definition scale_vec :: "real \<Rightarrow> vec \<Rightarrow> vec" where
  "scale_vec c v = map ((*) c) v"

definition scale_mat :: "real \<Rightarrow> mat \<Rightarrow> mat" where
  "scale_mat c A = map (scale_vec c) A"

text \<open>\<open>cumsum\<close> of a matrix: running sums down every column.\<close>

fun cumsum_from :: "vec \<Rightarrow> mat \<Rightarrow> mat" where
  "cumsum_from acc [] = []"
| "cumsum_from acc (r # rs) = plus_vec acc r # cumsum_from (plus_vec acc r) rs"

definition cumsum :: "mat \<Rightarrow> mat" where
  "cumsum M = (case M of [] \<Rightarrow> [] | r # rs \<Rightarrow> r # cumsum_from r rs)"

text \<open>
  \<open>C.rows(a,b) = V\<close>: Armadillo refuses the copy unless \<open>V\<close> has the size of the view.
\<close>

definition assign_rows :: "nat \<Rightarrow> nat \<Rightarrow> mat \<Rightarrow> mat \<Rightarrow> failure + mat" where
  "assign_rows a b V C =
     (if n_rows V \<noteq> b + 1 - a \<or> n_cols V \<noteq> n_cols C then Inl IncompatibleDimensions
      else Inr (take a C @ V @ drop (b + 1) C))"

text \<open>\<open>M.col(j) = v\<close> for a vector \<open>v\<close> with one entry per row of \<open>M\<close>.\<close>

definition set_col :: "nat \<Rightarrow> 'a list \<Rightarrow> 'a list list \<Rightarrow> 'a list list" where
  "set_col j v M = map2 (\<lambda>r x. r[j := x]) M v"

text \<open>\<open>M.col(l)\<close>, \<open>M.rows(idx)\<close> and \<open>M.cols(idx)\<close> with their bounds checks.\<close>

definition col_of :: "'a list list \<Rightarrow> nat \<Rightarrow> failure + 'a list" where
  "col_of M l = (if l < n_cols M then Inr (map (\<lambda>r. r ! l) M) else Inl OutOfBounds)"

definition select_rows :: "'a list \<Rightarrow> nat list \<Rightarrow> failure + 'a list" where
  "select_rows M idx =
     (if list_all (\<lambda>k. k < length M) idx then Inr (map ((!) M) idx) else Inl OutOfBounds)"

definition select_cols :: "nat \<Rightarrow> 'a list list \<Rightarrow> nat list \<Rightarrow> failure + 'a list list" where
  "select_cols nc M idx =
     (if list_all (\<lambda>k. k < nc) idx then Inr (map (\<lambda>r. map ((!) r) idx) M) else Inl OutOfBounds)"

text \<open>Sequencing of steps that may raise, and loops whose body may raise: the first
  failure ends the computation.\<close>

definition bindE :: "failure + 'a \<Rightarrow> ('a \<Rightarrow> failure + 'b) \<Rightarrow> failure + 'b" where
  "bindE m f = (case m of Inl e \<Rightarrow> Inl e | Inr x \<Rightarrow> f x)"

fun mapE :: "('a \<Rightarrow> failure + 'b) \<Rightarrow> 'a list \<Rightarrow> failure + 'b list" where
  "mapE f [] = Inr []"
| "mapE f (x # xs) =
     (case f x of
        Inl e \<Rightarrow> Inl e
      | Inr y \<Rightarrow> (case mapE f xs of Inl e \<Rightarrow> Inl e | Inr ys \<Rightarrow> Inr (y # ys)))"

fun foldE :: "('a \<Rightarrow> 's \<Rightarrow> failure + 's) \<Rightarrow> 'a list \<Rightarrow> 's \<Rightarrow> failure + 's" where
  "foldE f [] s = Inr s"
| "foldE f (x # xs) s = (case f x s of Inl e \<Rightarrow> Inl e | Inr s' \<Rightarrow> foldE f xs s')"

section \<open>NadarayaRegression.h\<close>

subsection \<open>Numerical integration and functional distance\<close>

text \<open>
  \<open>trapecio\<close> (lines 40-64). The accumulator \<open>C\<close> always has \<open>m = 1\<close> column. The
  views \<open>X.rows(1,n-1)\<close> and \<open>X.rows(0,n-2)\<close> are out of bounds when \<open>n < 2\<close>.
\<close>

definition trapecio :: "mat \<Rightarrow> mat \<Rightarrow> failure + mat" where
  "trapecio X Y =
     (if n_rows X \<noteq> n_rows Y \<or> n_cols X \<noteq> n_cols Y then Inl ShapeMismatch
      else
        let X1 = (if n_cols X = 1 then X else t_mat X);
            Y1 = (if n_cols X = 1 then Y else t_mat Y);
            n = n_rows X1;
            C = zeros n 1
        in if n < 2 then Inl OutOfBounds
           else
             let tmp = times_mat (minus_mat (rows_mat 1 (n - 1) X1) (rows_mat 0 (n - 2) X1))
                                 (plus_mat (rows_mat 1 (n - 1) Y1) (rows_mat 0 (n - 2) Y1))
             in bindE (if n_rows tmp = 1 then assign_rows 1 1 (scale_mat 0.5 tmp) C
                       else assign_rows 1 (n - 1) (scale_mat 0.5 (cumsum tmp)) C)
                      (\<lambda>C'. Inr (rows_mat (n - 1) (n - 1) C')))"

text \<open>
  \<open>eucdistance1\<close> (lines 67-78): entry \<open>(i,j)\<close> is the square root of element 0 of
  \<open>trapecio\<close> applied to the grid and the transposed squared difference of rows \<open>i\<close>
  and \<open>j\<close>. On a grid that does not decrease the integral of a square is not negative
  (lemma \<open>trapz_nonneg\<close>).
\<close>

definition eucdistance1 :: "mat \<Rightarrow> mat \<Rightarrow> failure + mat" where
  "eucdistance1 X t =
     (let n = n_rows X
      in mapE (\<lambda>i. mapE (\<lambda>j.
           bindE (trapecio t (t_mat [times_vec (minus_vec (X ! i) (X ! j))
                                               (minus_vec (X ! i) (X ! j))]))
                 (\<lambda>r. Inr (sqrt (r ! 0 ! 0)))) [0..<n]) [0..<n])"

subsection \<open>Kernel weighting\<close>

text \<open>\<open>gaussiankernelinicial\<close> (lines 96-100).\<close>

definition gaussiankernelinicial :: "vec \<Rightarrow> real \<Rightarrow> vec" where
  "gaussiankernelinicial x h =
     map (\<lambda>d. 2 / sqrt (2 * pi) * exp (- (d / h) * (d / h) * 0.5)) x"

subsection \<open>Nadaraya-Watson engine\<close>

record nadaraya_struct =
  prediction :: mat
  residuals :: mat
  r2 :: mat
  error :: mat
  r2_global :: mat

text \<open>
  The innermost loop, written three times in the source (lines 214-219, 236-240 and
  301-306): for every row \<open>i\<close> of the distance matrix \<open>D\<close>, entry \<open>i\<close> of the
  preallocated vector receives \<open>sum(aux % Ys) / sum(aux)\<close>, where \<open>aux\<close> holds the
  kernel weights of row \<open>i\<close>.
\<close>

definition predict_loop :: "mat \<Rightarrow> vec \<Rightarrow> real \<Rightarrow> vec \<Rightarrow> vec" where
  "predict_loop D Ys h aux3 =
     fold (\<lambda>i a. let aux2 = D ! i;
                     aux = gaussiankernelinicial aux2 h
                 in a[i := sum_list (times_vec aux Ys) / sum_list aux])
          [0..<n_rows D] aux3"

text \<open>
  One bandwidth of the cross-validation loop (lines 213-226). The state is
  \<open>(aux3x, prediciones2, R2validacionaux)\<close>.
\<close>

definition cv_step :: "mat \<Rightarrow> vec \<Rightarrow> vec \<Rightarrow> vec \<Rightarrow> nat \<Rightarrow> vec \<times> mat \<times> vec \<Rightarrow> vec \<times> mat \<times> vec" where
  "cv_step distancias2 Y1 Y2 hs j st =
     (case st of (aux3x, prediciones2, R2validacionaux) \<Rightarrow>
        let aux3x' = predict_loop distancias2 Y1 (hs ! j) aux3x;
            prediciones2' = set_col j aux3x' prediciones2;
            residuosauxx = minus_vec Y2 aux3x';
            residuosauxx' = [sum_list (times_vec residuosauxx residuosauxx)]
        in (aux3x', prediciones2', R2validacionaux[j := residuosauxx' ! 0]))"

text \<open>
  One fold of the cross-validation loop (lines 189-228). The state is
  \<open>(R2validacion, R2validacionaux)\<close>; the second component is declared outside the
  loop and survives from one fold to the next. \<open>mediax(0)\<close> reads the mean of an empty
  selection when the fold has no validation row.
\<close>

definition cv_fold :: "mat \<Rightarrow> vec \<Rightarrow> vec \<Rightarrow> umat \<Rightarrow> umat \<Rightarrow> nat \<Rightarrow> mat \<times> vec \<Rightarrow> failure + mat \<times> vec" where
  "cv_fold distancias Y hs indices1 indices2 l st =
     bindE (col_of indices1 l) (\<lambda>indices1aux.
     bindE (col_of indices2 l) (\<lambda>indices2aux.
     bindE (select_rows Y indices1aux) (\<lambda>Y1.
     bindE (select_rows Y indices2aux) (\<lambda>Y2.
     bindE (select_rows distancias indices2aux) (\<lambda>d2.
     bindE (select_cols (n_rows distancias) d2 indices1aux) (\<lambda>distancias2.
       if Y2 = [] then Inl OutOfBounds
       else
         let n2x = n_rows indices2;
             nh = length hs;
             (aux3x, prediciones2, R2validacionaux) =
                fold (cv_step distancias2 Y1 Y2 hs) [0..<nh]
                     (replicate n2x 0, zeros n2x nh, snd st)
         in Inr (set_col l R2validacionaux (fst st), R2validacionaux)))))))"

text \<open>
  One bandwidth of the in-sample loop (lines 235-249). The state is
  \<open>(aux3, prediciones, residuosglobal, R2, error)\<close>.
\<close>

definition insample_step :: "mat \<Rightarrow> vec \<Rightarrow> vec \<Rightarrow> vec \<Rightarrow> nat \<Rightarrow>
    vec \<times> mat \<times> mat \<times> vec \<times> vec \<Rightarrow> vec \<times> mat \<times> mat \<times> vec \<times> vec" where
  "insample_step distancias Y residuos hs j st =
     (case st of (aux3, prediciones, residuosglobal, R2, err) \<Rightarrow>
        let aux3' = predict_loop distancias Y (hs ! j) aux3;
            prediciones' = set_col j aux3' prediciones;
            residuosaux = minus_vec Y aux3';
            err' = err[j := sum_list (times_vec residuosaux residuosaux)];
            residuosaux' = [1 - sum_list (times_vec residuosaux residuosaux)
                                / sum_list (times_vec residuos residuos)];
            residuosglobal' = set_col j (minus_vec Y aux3') residuosglobal
        in (aux3', prediciones', residuosglobal', R2[j := residuosaux' ! 0], err'))"

text \<open>
  \<open>nadayara_regression\<close> (lines 157-258). \<open>Y\<close> is the outcome column and \<open>hs\<close> the
  column of bandwidths. \<open>media(0)\<close> fails on an empty outcome, and \<open>Y - mediavectorial\<close>
  when \<open>Y\<close> has not one entry per curve.
\<close>

definition nadayara_regression :: "mat \<Rightarrow> mat \<Rightarrow> vec \<Rightarrow> vec \<Rightarrow> umat \<Rightarrow> umat \<Rightarrow> failure + nadaraya_struct" where
  "nadayara_regression X t Y hs indices1 indices2 =
     (let n = n_rows X
      in if Y = [] then Inl OutOfBounds
         else if length Y \<noteq> n then Inl IncompatibleDimensions
         else
           let media = sum_list Y / real (length Y);
               residuos = minus_vec Y (replicate n media);
               nh = length hs;
               n1p = n_cols indices1
           in bindE (eucdistance1 X t) (\<lambda>distancias.
              bindE (foldE (cv_fold distancias Y hs indices1 indices2) [0..<n1p]
                           (zeros nh n1p, replicate nh 0))
                (\<lambda>(R2validacion, R2validacionaux).
                  case fold (insample_step distancias Y residuos hs) [0..<nh]
                            (replicate n 0, zeros n nh, zeros n nh, replicate nh 0, replicate nh 0) of
                    (aux3, prediciones, residuosglobal, R2, err) \<Rightarrow>
                      Inr \<lparr>prediction = prediciones, residuals = residuosglobal,
                           r2 = col_mat R2, error = col_mat err, r2_global = R2validacion\<rparr>)))"

text \<open>
  One bandwidth (lines 300-309) and one partition column (lines 286-312) of the
  prediction-only operation. The state of the outer loop is \<open>prediccionesfinales\<close>.
\<close>

definition pred_step :: "mat \<Rightarrow> vec \<Rightarrow> vec \<Rightarrow> nat \<Rightarrow> vec \<times> mat \<Rightarrow> vec \<times> mat" where
  "pred_step distancias2 Y1 hs j st =
     (case st of (aux3x, prediciones2) \<Rightarrow>
        let aux3x' = predict_loop distancias2 Y1 (hs ! j) aux3x
        in (aux3x', set_col j aux3x' prediciones2))"

definition pred_fold :: "mat \<Rightarrow> vec \<Rightarrow> vec \<Rightarrow> umat \<Rightarrow> umat \<Rightarrow> nat \<Rightarrow> mat \<Rightarrow> failure + mat" where
  "pred_fold distancias Y hs indices1 indices2 l prediccionesfinales =
     bindE (col_of indices1 l) (\<lambda>indices1aux.
     bindE (col_of indices2 l) (\<lambda>indices2aux.
     bindE (select_rows Y indices1aux) (\<lambda>Y1.
     bindE (select_rows distancias indices2aux) (\<lambda>d2.
     bindE (select_cols (n_rows distancias) d2 indices1aux) (\<lambda>distancias2.
       let n2x = n_rows indices2;
           nh = length hs;
           (aux3x, prediciones2) =
              fold (pred_step distancias2 Y1 hs) [0..<nh] (replicate n2x 0, zeros n2x nh)
       in Inr prediciones2)))))"

text \<open>\<open>nadayara_predicion\<close> (lines 264-315).\<close>

definition nadayara_predicion :: "mat \<Rightarrow> mat \<Rightarrow> vec \<Rightarrow> vec \<Rightarrow> umat \<Rightarrow> umat \<Rightarrow> failure + mat" where
  "nadayara_predicion X t Y hs indices1 indices2 =
     (let nh = length hs;
          n1p = n_cols indices1;
          n2x = n_rows indices2
      in bindE (eucdistance1 X t) (\<lambda>distancias.
           foldE (pred_fold distancias Y hs indices1 indices2) [0..<n1p] (zeros n2x nh)))"

section \<open>WassersteinRegression.h\<close>

record regression_struct =
  xfit :: mat
  xpred :: mat
  Qfit :: mat
  Qpred :: mat
  qfit :: mat
  qpred :: mat
  ffit :: mat
  fpred :: mat
  QP_used :: int

subsection \<open>Armadillo operations used by the header\<close>

text \<open>
  \<open>join_vert\<close> and \<open>join_horiz\<close> refuse operands whose column (row) counts differ; an
  operand without any element is skipped. \<open>A * B\<close> refuses operands whose inner sizes
  differ. \<open>mean(M, 0)\<close> is the row of column means, and has no row when \<open>M\<close> has none.
  \<open>diff\<close> is the vector of successive differences. \<open>approx_equal(a, b, "absdiff", tol)\<close>
  holds when \<open>a\<close> and \<open>b\<close> have the same size and all entries differ by at most \<open>tol\<close> in
  absolute value.
\<close>

definition join_vert :: "mat \<Rightarrow> mat \<Rightarrow> failure + mat" where
  "join_vert A B =
     (if A = [] then Inr B else if B = [] then Inr A
      else if n_cols A \<noteq> n_cols B then Inl IncompatibleDimensions
      else Inr (A @ B))"

definition join_horiz :: "mat \<Rightarrow> mat \<Rightarrow> failure + mat" where
  "join_horiz A B =
     (if n_rows A \<noteq> n_rows B then Inl IncompatibleDimensions else Inr (map2 (@) A B))"

definition ones :: "nat \<Rightarrow> nat \<Rightarrow> mat" where
  "ones n m = replicate n (replicate m 1)"

definition eye :: "nat \<Rightarrow> nat \<Rightarrow> mat" where
  "eye n m = map (\<lambda>i. map (\<lambda>j. if i = j then 1 else 0) [0..<m]) [0..<n]"

definition dot :: "vec \<Rightarrow> vec \<Rightarrow> real" where
  "dot a b = sum_list (times_vec a b)"

definition mat_mul :: "mat \<Rightarrow> mat \<Rightarrow> failure + mat" where
  "mat_mul A B =
     (if n_cols A \<noteq> n_rows B then Inl IncompatibleDimensions
      else Inr (map (\<lambda>r. map (dot r) (t_mat B)) A))"

definition mat_vec :: "mat \<Rightarrow> vec \<Rightarrow> vec" where
  "mat_vec A v = map (\<lambda>r. dot r v) A"

definition outer :: "vec \<Rightarrow> vec \<Rightarrow> mat" where
  "outer a b = map (\<lambda>x. map (\<lambda>y. x * y) b) a"

definition col_means :: "mat \<Rightarrow> mat" where
  "col_means M =
     (if M = [] then []
      else [map (\<lambda>j. sum_list (map (\<lambda>r. r ! j) M) / real (n_rows M)) [0..<n_cols M]])"

definition diff_vec :: "vec \<Rightarrow> vec" where
  "diff_vec v = map2 (\<lambda>a b. b - a) v (tl v)"

definition approx_equal :: "vec \<Rightarrow> vec \<Rightarrow> real \<Rightarrow> bool" where
  "approx_equal a b tol = list_all2 (\<lambda>x y. \<bar>x - y\<bar> \<le> tol) a b"

fun vec_min :: "vec \<Rightarrow> real" where
  "vec_min [] = 0"
| "vec_min (x # xs) = fold min xs x"

subsection \<open>Cumulative integration\<close>

text \<open>\<open>cumtrapz\<close> (lines 56-82).\<close>

definition cumtrapz :: "mat \<Rightarrow> mat \<Rightarrow> failure + mat" where
  "cumtrapz X Y =
     (if n_rows X \<noteq> n_rows Y \<or> n_cols X \<noteq> n_cols Y then Inl ShapeMismatch
      else
        let transposed = (n_rows X = 1);
            X1 = (if transposed then t_mat X else X);
            Y1 = (if transposed then t_mat Y else Y);
            n = n_rows X1;
            m = n_cols X1;
            C = zeros n m
        in if n < 2 then Inl OutOfBounds
           else
             let tmp = times_mat (minus_mat (rows_mat 1 (n - 1) X1) (rows_mat 0 (n - 2) X1))
                                 (plus_mat (rows_mat 1 (n - 1) Y1) (rows_mat 0 (n - 2) Y1))
             in bindE (if n_rows tmp = 1 then assign_rows 1 1 (scale_mat 0.5 tmp) C
                       else assign_rows 1 (n - 1) (scale_mat 0.5 (cumsum tmp)) C)
                      (\<lambda>C'. Inr (if transposed then t_mat C' else C')))"

subsection \<open>Row canonicalization\<close>

text \<open>
  \<open>is_smaller\<close> (lines 84-92): the loop over the columns, as a recursion over the two
  rows compared.
\<close>

fun row_greater :: "vec \<Rightarrow> vec \<Rightarrow> bool" where
  "row_greater (a # as) (b # bs) =
     (if a > b then True else if a < b then False else row_greater as bs)"
| "row_greater _ _ = False"

definition is_smaller :: "mat \<Rightarrow> nat \<Rightarrow> nat \<Rightarrow> bool" where
  "is_smaller A i j = row_greater (A ! i) (A ! j)"

text \<open>
  \<open>find_index\<close> (lines 94-101): the index of the first row of \<open>C\<close> that matches, and
  \<open>0\<close> when the loop ends without a match.
\<close>

fun find_index_from :: "nat \<Rightarrow> mat \<Rightarrow> vec \<Rightarrow> nat" where
  "find_index_from i [] rowA = 0"
| "find_index_from i (rowC # C) rowA =
     (if approx_equal rowA rowC 0.002 then i else find_index_from (i + 1) C rowA)"

definition find_index :: "mat \<Rightarrow> vec \<Rightarrow> nat" where
  "find_index C rowA = find_index_from 0 C rowA"

text \<open>
  \<open>ic_unique_rows\<close> (lines 113-154), in its three phases.

  Lines 114-128: \<open>B\<close> collects, in order, every row of \<open>A\<close> that matches none of the rows
  collected before it. The model keeps the \<open>count\<close> rows in use.
\<close>

definition collect_rows :: "mat \<Rightarrow> mat" where
  "collect_rows A =
     fold (\<lambda>rowA B. if list_ex (\<lambda>rowB. approx_equal rowA rowB 0.002) B then B else B @ [rowA])
          A []"

text \<open>
  Lines 132-142: the exchange pass over the index vector. The inner loop leaves at the
  first \<open>j\<close> whose first coordinate is larger.
\<close>

fun swap_inner :: "mat \<Rightarrow> nat \<Rightarrow> nat list \<Rightarrow> nat list \<Rightarrow> nat list" where
  "swap_inner B i [] indices = indices"
| "swap_inner B i (j # js) indices =
     (if B ! (indices ! i) ! 0 < B ! (indices ! j) ! 0 then indices
      else swap_inner B i js
             (if is_smaller B (indices ! i) (indices ! j)
              then indices[i := indices ! j, j := indices ! i]
              else indices))"

definition swap_pass :: "mat \<Rightarrow> nat list \<Rightarrow> nat list" where
  "swap_pass B indices =
     fold (\<lambda>i ind. swap_inner B i [i + 1..<length ind] ind) [0..<length indices - 1] indices"

text \<open>
  The whole function. \<open>sort_index\<close> is Armadillo's: it returns the positions of the
  entries in ascending order of value, and leaves the order of equal values open; it is a
  parameter of the model. \<open>B.rows(0, count-1)\<close> is out of bounds when \<open>A\<close> has no row,
  \<open>B.col(0)\<close> when it has no column.
\<close>

definition ic_unique_rows :: "(vec \<Rightarrow> nat list) \<Rightarrow> mat \<Rightarrow> failure + mat \<times> nat list" where
  "ic_unique_rows sort_index A =
     (let B = collect_rows A
      in if B = [] then Inl OutOfBounds
         else if n_cols B = 0 then Inl OutOfBounds
         else
           let indices = swap_pass B (sort_index (map (\<lambda>r. r ! 0) B));
               C = map (\<lambda>i. B ! (indices ! i)) [0..<n_rows B];
               ic = map (find_index C) A
           in Inr (C, ic))"

subsection \<open>The quadratic program\<close>

text \<open>\<open>getcC\<close> (lines 165-185). \<open>deltaT(m)\<close> is out of bounds when \<open>t\<close> has fewer than two entries.\<close>

definition getcC :: "vec \<Rightarrow> failure + vec \<times> mat" where
  "getcC t =
     (let deltaT = diff_vec t;
          deltaTp = deltaT @ [0];
          deltaTm = 0 # deltaT;
          bm = scale_vec 0.5 (plus_vec deltaTp deltaTm);
          Dm = outer bm bm;
          m = length deltaT - 1
      in if deltaT = [] then Inl OutOfBounds
         else Inr (fold (\<lambda>k (c, C).
                      let bk = scale_vec 0.5 (plus_vec (take (k + 2) deltaTm) (take (k + 2) deltaTp)
                                              @ replicate (m - k) 0);
                          Dk = outer bk bk
                      in (plus_vec c (scale_vec (0.5 * (deltaT ! k + deltaT ! (k + 1))) bk),
                          plus_mat C (scale_mat (0.5 * (deltaT ! k + deltaT ! (k + 1))) Dk)))
                    [0..<m]
                    (scale_vec (0.5 * deltaT ! m) bm, scale_mat (0.1 * deltaT ! m) Dm)))"

text \<open>
  The matrices built once before the loop over the flagged rows (lines 248-255):
  \<open>D\<close>, \<open>V1\<close>, \<open>v1\<close> and \<open>V2\<close>.
\<close>

definition qp_D :: "vec \<Rightarrow> mat \<Rightarrow> mat" where
  "qp_D c C = (1 # c) # map2 (#) c C"

definition qp_V1 :: "nat \<Rightarrow> mat" where
  "qp_V1 m = map (\<lambda>r. 0 # r) (scale_mat (- 1) (eye m m))"

definition qp_v1 :: "real \<Rightarrow> nat \<Rightarrow> vec" where
  "qp_v1 qdmin m = replicate m (- qdmin)"

definition qp_V2 :: "nat \<Rightarrow> mat" where
  "qp_V2 m =
     map (\<lambda>r. 0 # r)
         (minus_mat (map (\<lambda>r. r @ [0]) (eye (m - 1) (m - 1)))
                    (map (\<lambda>r. 0 # r) (eye (m - 1) (m - 1))))"

text \<open>
  The body of the loop over the flagged rows (lines 258-276). The solver is external:
  \<open>quadprog D d V v\<close> is \<open>Some\<close> solution, or \<open>None\<close> when the call throws. The state is
  \<open>(qall, Q0all, out)\<close>, where \<open>out\<close> collects the lines written to standard output.
  \<open>tmp\<close> is allocated with \<open>d.n_elem\<close> zeros before the call, and the two assignments
  after the \<open>try\<close> block copy \<open>tmp\<close> into the row whether the call threw or not.
\<close>

definition qp_row :: "(mat \<Rightarrow> vec \<Rightarrow> mat \<Rightarrow> vec \<Rightarrow> vec option) \<Rightarrow> vec \<Rightarrow> mat \<Rightarrow> mat \<Rightarrow> mat \<Rightarrow> vec \<Rightarrow> mat \<Rightarrow>
     nat \<Rightarrow> mat \<times> vec \<times> string list \<Rightarrow> failure + mat \<times> vec \<times> string list" where
  "qp_row quadprog c C D V1 v1 V2 decj st =
     (case st of (qall, Q0all, out) \<Rightarrow>
        let ax = Q0all ! decj;
            hx = qall ! decj
        in if length hx \<noteq> length c then Inl IncompatibleDimensions
           else
             let d = scale_vec (- 1) ((ax + dot c hx) # plus_vec (scale_vec ax c) (mat_vec C hx));
                 v2 = scale_vec 1.5 (map abs (diff_vec hx));
                 V = V1 @ V2 @ scale_mat (- 1) V2;
                 v = v1 @ v2 @ v2;
                 tmp0 = replicate (length d) 0;
                 (tmp, out') = (case quadprog D d V v of
                                  Some s \<Rightarrow> (s, out)
                                | None \<Rightarrow> (tmp0, out @
                                    [''WARNING: An error has occurred during the quadratic optimization...'']))
             in if length tmp < 2 then Inl OutOfBounds
                else if length tmp - 1 \<noteq> length hx then Inl IncompatibleDimensions
                else Inr (qall[decj := drop 1 tmp], Q0all[decj := tmp ! 0], out'))"

subsection \<open>The Frechet-Wasserstein engine\<close>

text \<open>
  Lines 212-219: the two tests on the grid. \<open>t(0)\<close> is out of bounds on an empty grid.
\<close>

definition check_grid :: "mat \<Rightarrow> vec \<Rightarrow> failure option" where
  "check_grid q t =
     (let m = n_cols q
      in if length t \<noteq> m then Some ShapeMismatch
         else if t = [] then Some OutOfBounds
         else if t ! 0 \<noteq> 0 \<or> t ! (length t - 1) \<noteq> 1 then Some InvalidGrid
         else None)"

text \<open>
  Lines 221-235: canonical covariate rows and the two least-squares fits evaluated on
  them. The linear solver is external: \<open>solve A B\<close> is \<open>Some\<close> solution, or \<open>None\<close> when
  none is found. The covariance \<open>sig\<close> is computed and never read. The result is
  \<open>(xall, ic, qall, Q0all)\<close>.
\<close>

definition ols_all :: "(vec \<Rightarrow> nat list) \<Rightarrow> (mat \<Rightarrow> mat \<Rightarrow> mat option) \<Rightarrow> mat \<Rightarrow> mat \<Rightarrow> mat \<Rightarrow> mat \<Rightarrow>
     failure + mat \<times> nat list \<times> mat \<times> vec" where
  "ols_all sort_index solve xfit' q Q0 xpred' =
     (let n = n_rows q;
          xbar = col_means xfit'
      in bindE (join_vert xpred' xfit') (\<lambda>xs.
         bindE (join_vert xs xbar) (\<lambda>xs'.
         bindE (ic_unique_rows sort_index xs') (\<lambda>(xall, ic).
         bindE (join_horiz (ones n 1) xfit') (\<lambda>A.
         bindE (mat_mul (t_mat A) A) (\<lambda>AtA.
         bindE (mat_mul (t_mat A) Q0) (\<lambda>AtQ0.
         bindE (case solve AtA AtQ0 of None \<Rightarrow> Inl SolveFailure | Some x \<Rightarrow> Inr x) (\<lambda>ahat.
         if n_cols ahat \<noteq> 1 then Inl IncompatibleDimensions
         else
         bindE (mat_mul (t_mat A) q) (\<lambda>Atq.
         bindE (case solve AtA Atq of None \<Rightarrow> Inl SolveFailure | Some x \<Rightarrow> Inr x) (\<lambda>bhat.
         bindE (join_horiz (ones (n_rows xall) 1) xall) (\<lambda>A1.
         bindE (mat_mul A1 bhat) (\<lambda>qall.
         bindE (mat_mul A1 ahat) (\<lambda>Q0all.
           Inr (xall, ic, qall, map (\<lambda>r. r ! 0) Q0all))))))))))))))"

text \<open>
  Lines 237-277: the positivity test and the projection of the flagged rows. The result
  is \<open>(QP_used, qall, Q0all, out)\<close>.
\<close>

definition project_rows :: "(mat \<Rightarrow> vec \<Rightarrow> mat \<Rightarrow> vec \<Rightarrow> vec option) \<Rightarrow> vec \<Rightarrow> real \<Rightarrow> mat \<Rightarrow> vec \<Rightarrow>
     failure + int \<times> mat \<times> vec \<times> string list" where
  "project_rows quadprog t qdmin qall Q0all =
     (let m = length t;
          dec = filter (\<lambda>j. vec_min (qall ! j) < 0) [0..<n_rows qall]
      in if dec = [] then Inr (0, qall, Q0all, [])
         else
           bindE (getcC t) (\<lambda>(c, C).
           bindE (foldE (qp_row quadprog c C (qp_D c C) (qp_V1 m) (qp_v1 qdmin m) (qp_V2 m))
                        dec (qall, Q0all, []))
                 (\<lambda>(qall', Q0all', out). Inr (1, qall', Q0all', out))))"

text \<open>
  \<open>wasserstein_regression\<close> (lines 210-307). Besides the structure it returns, the model
  returns the lines written to standard output. The views \<open>ic.subvec(k, k+n-1)\<close> and
  \<open>ic.subvec(0, k-1)\<close> are out of bounds when there is no fit row or no prediction row.
  In the loop of lines 281-286 the extra call of \<open>cumtrapz\<close> for \<open>j = 181\<close> and
  \<open>j = 19\<close> has the arguments of the call that follows it and its result is dropped.
  The loop over the flagged rows is an OpenMP parallel loop whose passes read and write
  one row each, all different; the model runs them in order.
\<close>

definition wasserstein_regression :: "(vec \<Rightarrow> nat list) \<Rightarrow> (mat \<Rightarrow> mat \<Rightarrow> mat option) \<Rightarrow>
     (mat \<Rightarrow> vec \<Rightarrow> mat \<Rightarrow> vec \<Rightarrow> vec option) \<Rightarrow>
     mat \<Rightarrow> mat \<Rightarrow> mat \<Rightarrow> mat \<Rightarrow> vec \<Rightarrow> real \<Rightarrow> failure + regression_struct \<times> string list" where
  "wasserstein_regression sort_index solve quadprog xfit' q Q0 xpred' t qdmin =
     (let n = n_rows q;
          k = n_rows xpred'
      in case check_grid q t of
           Some e \<Rightarrow> Inl e
         | None \<Rightarrow>
             bindE (ols_all sort_index solve xfit' q Q0 xpred') (\<lambda>(xall, ic, qall0, Q0all0).
             bindE (project_rows quadprog t qdmin qall0 Q0all0) (\<lambda>(used, qall, Q0all, out).
             bindE (foldE (\<lambda>j Qall.
                      bindE (cumtrapz [t] [qall ! j]) (\<lambda>ct.
                      bindE (join_vert Qall (map (map (\<lambda>x. Q0all ! j + x)) ct)) Inr))
                      [0..<n_rows xall] []) (\<lambda>Qall.
               let fall = map (map (\<lambda>x. 1 / x)) qall
               in if n = 0 \<or> k = 0 then Inl OutOfBounds
                  else Inr (\<lparr>xfit = xfit', xpred = xpred',
                             Qfit = map ((!) Qall) (take n (drop k ic)),
                             Qpred = map ((!) Qall) (take k ic),
                             qfit = map ((!) qall) (take n (drop k ic)),
                             qpred = map ((!) qall) (take k ic),
                             ffit = map ((!) fall) (take n (drop k ic)),
                             fpred = map ((!) fall) (take k ic),
                             QP_used = used\<rparr>, out)))))"

subsection \<open>Reference quantities\<close>

text \<open>
  The trapezoid rule, kernel A, the kernel-weighted prediction \<open>\<Sigma>(w\<cdot>y)/\<Sigma>(w)\<close>, the
  out-of-fold sum of squared errors of one fold and the prediction matrix of one fold,
  written as the specification words them; the theorems compare the code with them.
\<close>

definition trapz :: "vec \<Rightarrow> vec \<Rightarrow> real" where
  "trapz xs ys =
     (\<Sum>i\<leftarrow>[0..<length xs - 1]. (xs ! (i + 1) - xs ! i) * (ys ! (i + 1) + ys ! i)) / 2"

definition kernel_a :: "real \<Rightarrow> real \<Rightarrow> real" where
  "kernel_a d h = 2 / sqrt (2 * pi) * exp (- 0.5 * (d / h)\<^sup>2)"

definition nw_prediction :: "vec \<Rightarrow> vec \<Rightarrow> real \<Rightarrow> real" where
  "nw_prediction ds ys h =
     (\<Sum>k\<leftarrow>[0..<length ds]. kernel_a (ds ! k) h * ys ! k) / (\<Sum>k\<leftarrow>[0..<length ds]. kernel_a (ds ! k) h)"

definition fold_sse :: "mat \<Rightarrow> vec \<Rightarrow> nat list \<Rightarrow> nat list \<Rightarrow> real \<Rightarrow> real" where
  "fold_sse D Y train val h =
     (\<Sum>i\<leftarrow>val. (Y ! i - nw_prediction (map ((!) (D ! i)) train) (map ((!) Y) train) h)\<^sup>2)"

definition fold_predictions :: "mat \<Rightarrow> vec \<Rightarrow> nat list \<Rightarrow> nat list \<Rightarrow> vec \<Rightarrow> mat" where
  "fold_predictions D Y train val hs =
     map (\<lambda>i. map (\<lambda>h. nw_prediction (map ((!) (D ! i)) train) (map ((!) Y) train) h) hs) val"

text \<open>Running sums of a list, started at \<open>a\<close>, and the cumulative sums of a list.\<close>

fun running :: "real \<Rightarrow> vec \<Rightarrow> vec" where
  "running a [] = []"
| "running a (x # xs) = (a + x) # running (a + x) xs"

definition csum :: "vec \<Rightarrow> vec" where
  "csum v = (case v of [] \<Rightarrow> [] | d # r \<Rightarrow> d # running d r)"

text \<open>
  The ratio computed in the body of \<open>predict_loop\<close>, and the sum of squared validation
  errors computed in the body of \<open>cv_step\<close>, as functions of the loop-invariant data.
\<close>

definition kernel_ratio :: "vec \<Rightarrow> vec \<Rightarrow> real \<Rightarrow> real" where
  "kernel_ratio row Ys h =
     sum_list (times_vec (gaussiankernelinicial row h) Ys) / sum_list (gaussiankernelinicial row h)"

definition step_sse :: "mat \<Rightarrow> vec \<Rightarrow> vec \<Rightarrow> real \<Rightarrow> real" where
  "step_sse D2 Y1 Y2 h =
     (let r = minus_vec Y2 (map (\<lambda>i. kernel_ratio (D2 ! i) Y1 h) [0..<n_rows D2])
      in sum_list (times_vec r r))"

text \<open>
  Two stand-ins for the external collaborators, used to run the engine on concrete
  inputs: an index sort that keeps equal values in position order, and the exact solution
  of a linear system with a 2-by-2 matrix by Cramer's rule.
\<close>

definition stable_sort_index :: "vec \<Rightarrow> nat list" where
  "stable_sort_index v = sort_key (\<lambda>i. v ! i) [0..<length v]"

definition solve2 :: "mat \<Rightarrow> mat \<Rightarrow> mat option" where
  "solve2 M B =
     (if length M = 2 \<and> length (M ! 0) = 2 \<and> length (M ! 1) = 2 \<and> length B = 2
         \<and> M ! 0 ! 0 * M ! 1 ! 1 - M ! 0 ! 1 * M ! 1 ! 0 \<noteq> 0
      then let det = M ! 0 ! 0 * M ! 1 ! 1 - M ! 0 ! 1 * M ! 1 ! 0
           in Some [map (\<lambda>j. (M ! 1 ! 1 * B ! 0 ! j - M ! 0 ! 1 * B ! 1 ! j) / det) [0..<n_cols B],
                    map (\<lambda>j. (M ! 0 ! 0 * B ! 1 ! j - M ! 1 ! 0 * B ! 0 ! j) / det) [0..<n_cols B]]
      else None)"

text \<open>
  Rows kept apart: no row occurs twice, and no two different rows match within the
  tolerance 0.002.
\<close>

definition rows_apart :: "mat \<Rightarrow> bool" where
  "rows_apart B \<longleftrightarrow>
     distinct B \<and> (\<forall>x\<in>set B. \<forall>y\<in>set B. x \<noteq> y \<longrightarrow> \<not> approx_equal x y 0.002)"

section \<open>Properties of the numerical integration\<close>


lemma n_cols_col_mat: "xs \<noteq> [] \<Longrightarrow> n_cols (col_mat xs) = 1"
  by (cases xs) (simp_all add: n_cols_def col_mat_def)

lemma n_rows_col_mat: "n_rows (col_mat xs) = length xs"
  by (simp add: n_rows_def col_mat_def)

lemma rows_mat_col_mat: "rows_mat a b (col_mat xs) = col_mat (take (b + 1 - a) (drop a xs))"
  by (simp add: rows_mat_def col_mat_def take_map drop_map)

lemma minus_mat_col_mat: "minus_mat (col_mat a) (col_mat b) = col_mat (minus_vec a b)"
  by (auto simp: minus_mat_def col_mat_def minus_vec_def zip_map_map)

lemma plus_mat_col_mat: "plus_mat (col_mat a) (col_mat b) = col_mat (plus_vec a b)"
  by (auto simp: plus_mat_def col_mat_def plus_vec_def zip_map_map)

lemma times_mat_col_mat: "times_mat (col_mat a) (col_mat b) = col_mat (times_vec a b)"
  by (auto simp: times_mat_def col_mat_def times_vec_def zip_map_map)

lemma scale_mat_col_mat: "scale_mat c (col_mat v) = col_mat (scale_vec c v)"
  by (simp add: scale_mat_def col_mat_def scale_vec_def)

lemma t_mat_row: "t_mat [xs] = col_mat xs"
  by (rule nth_equalityI) (simp_all add: t_mat_def n_cols_def col_mat_def)


lemma cumsum_from_col_mat: "cumsum_from [a] (col_mat v) = col_mat (running a v)"
  by (induction v arbitrary: a) (simp_all add: col_mat_def plus_vec_def)

lemma length_running: "length (running a v) = length v"
  by (induction v arbitrary: a) simp_all

lemma running_Nil: "running a v = [] \<longleftrightarrow> v = []"
  by (cases v) simp_all

lemma last_running: "v \<noteq> [] \<Longrightarrow> last (running a v) = a + sum_list v"
  by (induction v arbitrary: a) (simp_all add: running_Nil)


lemma cumsum_col_mat: "cumsum (col_mat v) = col_mat (csum v)"
  using cumsum_from_col_mat by (cases v) (simp_all add: cumsum_def csum_def col_mat_def)

lemma length_csum: "length (csum v) = length v"
  by (cases v) (simp_all add: csum_def length_running)

lemma last_csum: "v \<noteq> [] \<Longrightarrow> last (csum v) = sum_list v"
  by (cases v) (simp_all add: csum_def last_running running_Nil)

lemma csum_single: "csum [d] = [d]"
  by (simp add: csum_def)


lemma sum_list_diffs:
  assumes "length xs = length ys" "2 \<le> length xs"
  shows "sum_list (times_vec (minus_vec (drop 1 xs) (take (length xs - 1) xs))
                            (plus_vec (drop 1 ys) (take (length xs - 1) ys))) / 2 = trapz xs ys"
proof -
  have "times_vec (minus_vec (drop 1 xs) (take (length xs - 1) xs))
                  (plus_vec (drop 1 ys) (take (length xs - 1) ys))
        = map (\<lambda>i. (xs ! (i + 1) - xs ! i) * (ys ! (i + 1) + ys ! i)) [0..<length xs - 1]"
    using assms by (intro nth_equalityI) (simp_all add: times_vec_def minus_vec_def plus_vec_def)
  then show ?thesis by (simp add: trapz_def)
qed

lemma trapecio_col:
  assumes "length xs = length ys" "2 \<le> length xs"
  shows "trapecio (col_mat xs) (col_mat ys) = Inr [[trapz xs ys]]"
proof -
  define n where "n = length xs"
  define ds where "ds = times_vec (minus_vec (drop 1 xs) (take (n - 1) xs))
                                  (plus_vec (drop 1 ys) (take (n - 1) ys))"
  define V where "V = scale_vec 0.5 (csum ds)"
  have n2: "2 \<le> n" and ly: "length ys = n" using assms by (simp_all add: n_def)
  have lds: "length ds = n - 1"
    using n2 ly by (simp add: ds_def times_vec_def minus_vec_def plus_vec_def n_def)
  have ne: "xs \<noteq> []" "ys \<noteq> []" "ds \<noteq> []" using n2 ly lds by (auto simp: n_def)
  have tmp: "times_mat (minus_mat (rows_mat 1 (n - 1) (col_mat xs)) (rows_mat 0 (n - 2) (col_mat xs)))
                       (plus_mat (rows_mat 1 (n - 1) (col_mat ys)) (rows_mat 0 (n - 2) (col_mat ys)))
             = col_mat ds"
  proof -
    have "n - 2 + 1 - 0 = n - 1" using n2 by simp
    moreover have "take (n - 1) (drop 1 xs) = drop 1 xs" "take (n - 1) (drop 1 ys) = drop 1 ys"
      using ly by (simp_all add: n_def)
    ultimately show ?thesis
      by (simp add: rows_mat_col_mat minus_mat_col_mat plus_mat_col_mat times_mat_col_mat ds_def)
  qed
  have lV: "length V = n - 1" by (simp add: V_def scale_vec_def length_csum lds)
  have one: "scale_mat 0.5 (col_mat ds) = col_mat V" if "n - 1 = 1"
  proof -
    from that lds obtain d where "ds = [d]" by (cases ds) auto
    then show ?thesis by (simp add: V_def scale_mat_col_mat csum_single)
  qed
  have upd: "(if length ds = 1 then assign_rows 1 1 (scale_mat 0.5 (col_mat ds)) (zeros n 1)
              else assign_rows 1 (n - 1) (scale_mat 0.5 (cumsum (col_mat ds))) (zeros n 1))
             = Inr ([0] # col_mat V)"
  proof -
    have Vne: "V \<noteq> []" using lV n2 by auto
    have z: "take 1 (zeros n 1) = [[0]]" "drop n (zeros n 1) = []" "n_cols (zeros n 1) = 1"
      using n2 by (cases n; simp add: zeros_def n_cols_def)+
    have a: "assign_rows 1 (n - 1) (col_mat V) (zeros n 1) = Inr ([0] # col_mat V)"
      using n2 lV Vne z by (simp add: assign_rows_def n_rows_col_mat n_cols_col_mat)
    show ?thesis
    proof (cases "n - 1 = 1")
      case True
      then show ?thesis using a one lds by simp
    next
      case False
      then show ?thesis using a lds 
        by (simp add: cumsum_col_mat scale_mat_col_mat V_def)
    qed
  qed
  have res: "rows_mat (n - 1) (n - 1) ([0] # col_mat V) = [[sum_list ds / 2]]"
  proof -
    have "drop (n - 1) ([0] # col_mat V) = drop (n - 2) (col_mat V)"
    proof -
      have "n - 1 = Suc (n - 2)" using n2 by simp
      then show ?thesis by simp
    qed
    also have "\<dots> = col_mat (drop (n - 2) V)" by (simp add: col_mat_def drop_map)
    also have "drop (n - 2) V = [last V]"
    proof -
      have "V \<noteq> []" using lV n2 by auto
      then have "V = butlast V @ [last V]" by simp
      moreover have "length (butlast V) = n - 2" using lV by simp
      ultimately show ?thesis by (metis append_eq_conv_conj)
    qed
    also have "last V = sum_list ds / 2"
    proof -
      have "csum ds \<noteq> []" using ne(3) length_csum[of ds] by auto
      then show ?thesis using ne(3) by (simp add: V_def scale_vec_def last_map last_csum)
    qed
    finally show ?thesis by (simp add: rows_mat_def col_mat_def)
  qed
  have nl: "\<not> n < 2" using n2 by simp
  have "trapecio (col_mat xs) (col_mat ys) = Inr [[sum_list ds / 2]]"
    unfolding trapecio_def Let_def
    by (simp only: n_rows_col_mat n_cols_col_mat[OF ne(1)] n_cols_col_mat[OF ne(2)] ly
          n_def[symmetric] simp_thms if_True if_False nl tmp upd res bindE_def sum.case)
  moreover have "sum_list ds / 2 = trapz xs ys"
    using sum_list_diffs[OF assms] by (simp add: ds_def n_def)
  ultimately show ?thesis by simp
qed

lemma trapecio_row:
  assumes "length xs = length ys" "2 \<le> length xs"
  shows "trapecio [xs] [ys] = Inr [[trapz xs ys]]"
proof -
  have "n_cols [xs] \<noteq> 1" "n_cols [xs] = n_cols [ys]" using assms by (simp_all add: n_cols_def)
  moreover have "n_rows [xs] = n_rows [ys]" by (simp add: n_rows_def)
  moreover have "xs \<noteq> []" "ys \<noteq> []" using assms by auto
  ultimately have "trapecio [xs] [ys] = trapecio (col_mat xs) (col_mat ys)"
    using assms
    by (simp add: trapecio_def[of "[xs]"] trapecio_def[of "col_mat xs"] t_mat_row n_rows_col_mat n_cols_col_mat Let_def)
  then show ?thesis by (simp add: trapecio_col[OF assms])
qed

text \<open>
  Claim C6, amended. For two vectors of the same length with at least two entries, given
  both as columns or both as rows (rows are transposed to columns inside), \<open>trapecio\<close>
  returns one value, the total trapezoidal integral, as a 1-by-1 matrix.
\<close>
theorem trapecio_vector_total_integral:
  assumes "length xs = length ys" "2 \<le> length xs"
  shows "trapecio (col_mat xs) (col_mat ys) = Inr [[trapz xs ys]]
       \<and> trapecio [xs] [ys] = Inr [[trapz xs ys]]"
  using trapecio_col[OF assms] trapecio_row[OF assms] by simp

theorem trapecio_vector_total_integral_witness:
  "length [0, 1/2, 1::real] = length [3, 3, 3::real] \<and> 2 \<le> length [0, 1/2, 1::real]
   \<and> trapecio [[0], [1/2], [1]] [[3], [3], [3]] = Inr [[3]]
   \<and> trapecio [[0, 1/2, 1]] [[3, 3, 3]] = Inr [[3]]"
  using trapecio_vector_total_integral[of "[0, 1/2, 1]" "[3, 3, 3]"]
  by (simp add: trapz_def col_mat_def)

text \<open>
  Claim C6 as stated fails on matrices with more than one row and more than one column:
  the accumulator has a single column, and the copy of the two-column partial sums into
  it is refused.
\<close>

theorem trapecio_matrix_counterexample:
  "n_rows [[0, 0], [1, 1::real]] = n_rows [[3, 5], [3, 5::real]]
   \<and> n_cols [[0, 0], [1, 1::real]] = n_cols [[3, 5], [3, 5::real]]
   \<and> trapecio [[0, 0], [1, 1]] [[3, 5], [3, 5]] = Inl IncompatibleDimensions"
  by (simp add: trapecio_def n_rows_def n_cols_def t_mat_def zeros_def rows_mat_def minus_mat_def plus_mat_def times_mat_def
     minus_vec_def plus_vec_def times_vec_def scale_mat_def scale_vec_def assign_rows_def cumsum_def Let_def bindE_def)

section \<open>Properties of the functional distance\<close>


lemma bindE_Inr_iff: "bindE m f = Inr y \<longleftrightarrow> (\<exists>x. m = Inr x \<and> f x = Inr y)"
  by (cases m) (simp_all add: bindE_def)

lemma mapE_Cons_Inr:
  "mapE f (x # xs) = Inr zs \<longleftrightarrow> (\<exists>y ys. zs = y # ys \<and> f x = Inr y \<and> mapE f xs = Inr ys)"
  by (auto split: sum.splits)

lemma mapE_list_all2: "mapE f xs = Inr ys \<longleftrightarrow> list_all2 (\<lambda>x y. f x = Inr y) xs ys"
proof (induction xs arbitrary: ys)
  case Nil
  then show ?case by auto
next
  case (Cons x xs)
  show ?case unfolding mapE_Cons_Inr Cons.IH by (cases ys) auto
qed

lemma mapE_nth:
  assumes "mapE f xs = Inr ys"
  shows "length ys = length xs" and "i < length xs \<Longrightarrow> f (xs ! i) = Inr (ys ! i)"
  using assms by (auto simp: mapE_list_all2 list_all2_conv_all_nth)

lemma mapE_total:
  assumes "\<And>x. x \<in> set xs \<Longrightarrow> \<exists>y. f x = Inr y"
  shows "\<exists>ys. mapE f xs = Inr ys"
  using assms
proof (induction xs)
  case Nil
  then show ?case by simp
next
  case (Cons x xs)
  then obtain y ys where "f x = Inr y" "mapE f xs = Inr ys" by (meson list.set_intros)
  then show ?case by simp
qed

lemma trapz_zero: "trapz ts (replicate m 0) = 0" if "length ts = m"
proof -
  have "map (\<lambda>i. (ts ! (i + 1) - ts ! i) * (replicate m (0::real) ! (i + 1) + replicate m 0 ! i)) [0..<m - 1]
        = map (\<lambda>i. 0) [0..<m - 1]"
    by (rule map_cong) auto
  moreover have "(\<Sum>i\<leftarrow>xs. (0::real)) = 0" for xs :: "nat list" by (induction xs) auto
  ultimately have "(\<Sum>i\<leftarrow>[0..<m - 1]. (ts ! (i + 1) - ts ! i) * (replicate m (0::real) ! (i + 1) + replicate m 0 ! i)) = 0"
    by (simp only:)
  then show ?thesis unfolding trapz_def that length_replicate by (simp only: div_0)
qed

lemma sum_list_nonneg_real:
  fixes xs :: "real list"
  shows "(\<And>x. x \<in> set xs \<Longrightarrow> 0 \<le> x) \<Longrightarrow> 0 \<le> sum_list xs"
  by (induction xs) auto

lemma trapz_nonneg:
  assumes "sorted ts" "length ys = length ts" "\<And>y. y \<in> set ys \<Longrightarrow> 0 \<le> y"
  shows "0 \<le> trapz ts ys"
proof -
  have "0 \<le> (ts ! (i + 1) - ts ! i) * (ys ! (i + 1) + ys ! i)" if "i < length ts - 1" for i
  proof -
    have "ts ! i \<le> ts ! (i + 1)" using assms(1) that by (simp add: sorted_iff_nth_mono)
    moreover have "0 \<le> ys ! (i + 1)" "0 \<le> ys ! i" using assms(2,3) that by simp_all
    ultimately show ?thesis by simp
  qed
  then have "0 \<le> (\<Sum>i\<leftarrow>[0..<length ts - 1]. (ts ! (i + 1) - ts ! i) * (ys ! (i + 1) + ys ! i))"
    by (intro sum_list_nonneg_real) auto
  then show ?thesis by (simp add: trapz_def)
qed

lemma sq_diff_self: "times_vec (minus_vec a a) (minus_vec a a) = replicate (length a) 0"
  by (rule nth_equalityI) (simp_all add: times_vec_def minus_vec_def)

lemma sq_diff_sym: "times_vec (minus_vec a b) (minus_vec a b) = times_vec (minus_vec b a) (minus_vec b a)"
  by (rule nth_equalityI) (simp_all add: times_vec_def minus_vec_def algebra_simps)

lemma length_sq_diff: "length (times_vec (minus_vec a b) (minus_vec a b)) = min (length a) (length b)"
  by (simp add: times_vec_def minus_vec_def)

lemma col_mat_of_single_col:
  assumes "is_mat t" "n_cols t = 1"
  shows "t = col_mat (map hd t)"
proof (rule nth_equalityI)
  show "length t = length (col_mat (map hd t))" by (simp add: col_mat_def)
next
  fix i assume i: "i < length t"
  then have "length (t ! i) = 1" using assms by (simp add: is_mat_def list_all_length)
  then obtain x where "t ! i = [x]" by (cases "t ! i") auto
  then show "t ! i = col_mat (map hd t) ! i" using i by (simp add: col_mat_def)
qed

lemma trapecio_zero_column:
  assumes "is_mat t" "trapecio t (col_mat (replicate m 0)) = Inr r"
  shows "r = [[0]]"
proof -
  have shape: "n_rows t = m" "n_cols t = n_cols (col_mat (replicate m (0::real)))"
    using assms(2) by (auto simp: trapecio_def n_rows_col_mat split: if_splits)
  have m2: "2 \<le> m"
  proof (rule ccontr)
    assume "\<not> 2 \<le> m"
    then have "n_rows (if n_cols t = 1 then t else t_mat t) < 2"
      using shape by (cases m) (auto simp: n_rows_def t_mat_def n_cols_def col_mat_def)
    then show False using assms(2) by (auto simp: trapecio_def Let_def split: if_splits)
  qed
  then have "n_cols t = 1" using shape by (simp add: n_cols_col_mat)
  then have t: "t = col_mat (map hd t)" using assms(1) by (rule col_mat_of_single_col[rotated])
  have "length (map hd t) = m" using shape by (simp add: n_rows_def)
  then have "trapecio (col_mat (map hd t)) (col_mat (replicate m 0)) = Inr [[trapz (map hd t) (replicate m 0)]]"
    using m2 by (intro trapecio_col) simp_all
  then show ?thesis using assms(2) t trapz_zero[of "map hd t" m] shape by (simp add: n_rows_def)
qed

lemma eucdistance1_entry:
  assumes "eucdistance1 X t = Inr D" "i < n_rows X" "j < n_rows X"
  shows "\<exists>r. trapecio t (col_mat (times_vec (minus_vec (X ! i) (X ! j)) (minus_vec (X ! i) (X ! j)))) = Inr r
             \<and> D ! i ! j = sqrt (r ! 0 ! 0)"
    and "length D = n_rows X" and "length (D ! i) = n_rows X"
proof -
  let ?f = "\<lambda>i j. bindE (trapecio t (t_mat [times_vec (minus_vec (X ! i) (X ! j)) (minus_vec (X ! i) (X ! j))]))
                 (\<lambda>r. Inr (sqrt (r ! 0 ! 0)))"
  have D: "mapE (\<lambda>i. mapE (?f i) [0..<n_rows X]) [0..<n_rows X] = Inr D"
    using assms(1) by (simp add: eucdistance1_def Let_def)
  from mapE_nth[OF D] assms(2) show "length D = n_rows X" by simp
  from mapE_nth[OF D] assms(2) have row: "mapE (?f i) [0..<n_rows X] = Inr (D ! i)" by auto
  from mapE_nth[OF row] assms(3) show "length (D ! i) = n_rows X" by simp
  from mapE_nth[OF row] assms(3) have "?f i j = Inr (D ! i ! j)" by auto
  then show "\<exists>r. trapecio t (col_mat (times_vec (minus_vec (X ! i) (X ! j)) (minus_vec (X ! i) (X ! j)))) = Inr r
             \<and> D ! i ! j = sqrt (r ! 0 ! 0)"
    by (auto simp: bindE_Inr_iff t_mat_row)
qed

lemma eucdistance1_total:
  assumes "\<And>r. r \<in> set X \<Longrightarrow> length r = length ts" "2 \<le> length ts"
  shows "\<exists>D. eucdistance1 X (col_mat ts) = Inr D"
proof -
  have "\<exists>y. bindE (trapecio (col_mat ts) (t_mat [times_vec (minus_vec (X ! i) (X ! j)) (minus_vec (X ! i) (X ! j))]))
                 (\<lambda>r. Inr (sqrt (r ! 0 ! 0))) = Inr y" if "i < length X" "j < length X" for i j
  proof -
    have "length (times_vec (minus_vec (X ! i) (X ! j)) (minus_vec (X ! i) (X ! j))) = length ts"
      using that assms(1) by (simp add: length_sq_diff)
    then show ?thesis using assms(2) by (simp add: t_mat_row trapecio_col bindE_def)
  qed
  then show ?thesis
    unfolding eucdistance1_def Let_def n_rows_def
    by (intro mapE_total) auto
qed

text \<open>
  Claim C8. For curves \<open>X\<close> and a grid \<open>t\<close>, every self-distance matrix that
  \<open>eucdistance1\<close> returns has one row per curve, is symmetric and has a zero diagonal;
  and it does return one whenever every curve has one value per grid point and the grid
  is a column of at least two points.
\<close>
theorem eucdistance1_symmetric_zero_diagonal:
  assumes "is_mat t"
  shows "(\<forall>D. eucdistance1 X t = Inr D \<longrightarrow>
            n_rows D = n_rows X \<and>
            (\<forall>i<n_rows X. \<forall>j<n_rows X. D ! i ! j = D ! j ! i \<and> D ! i ! i = 0))
       \<and> ((\<forall>r\<in>set X. length r = n_rows t) \<and> n_cols t = 1 \<and> 2 \<le> n_rows t \<longrightarrow>
            (\<exists>D. eucdistance1 X t = Inr D))"
proof (intro conjI allI impI)
  fix D assume D: "eucdistance1 X t = Inr D"
  show "n_rows D = n_rows X" using D
    by (auto simp: eucdistance1_def Let_def n_rows_def dest: mapE_nth(1))
  fix i j assume ij: "i < n_rows X" "j < n_rows X"
  from eucdistance1_entry(1)[OF D ij] eucdistance1_entry(1)[OF D ij(2) ij(1)]
  show "D ! i ! j = D ! j ! i" by (auto simp: sq_diff_sym[of "X ! i" "X ! j"])
  from eucdistance1_entry(1)[OF D ij(1) ij(1)]
  obtain r where "trapecio t (col_mat (replicate (length (X ! i)) 0)) = Inr r" "D ! i ! i = sqrt (r ! 0 ! 0)"
    by (auto simp: sq_diff_self)
  with trapecio_zero_column[OF assms, of "length (X ! i)" r]
  show "D ! i ! i = 0" by simp
next
  assume a: "(\<forall>r\<in>set X. length r = n_rows t) \<and> n_cols t = 1 \<and> 2 \<le> n_rows t"
  then have "t = col_mat (map hd t)" using assms col_mat_of_single_col by blast
  moreover have "\<exists>D. eucdistance1 X (col_mat (map hd t)) = Inr D"
    using a by (intro eucdistance1_total) (simp_all add: n_rows_def)
  ultimately show "\<exists>D. eucdistance1 X t = Inr D" by simp
qed

theorem eucdistance1_symmetric_zero_diagonal_witness:
  "is_mat [[0], [1::real]] \<and>
   (\<exists>D. eucdistance1 [[0, 0], [1, 1], [2, 2]] [[0], [1]] = Inr D \<and> n_rows D = 3 \<and>
        (\<forall>i<3. \<forall>j<3. D ! i ! j = D ! j ! i \<and> D ! i ! i = 0))"
proof -
  have m: "is_mat [[0], [1::real]]" by (simp add: is_mat_def n_cols_def)
  have s: "(\<forall>r\<in>set [[0, 0], [1, 1], [2, 2::real]]. length r = n_rows [[0], [1::real]])
        \<and> n_cols [[0], [1::real]] = 1 \<and> 2 \<le> n_rows [[0], [1::real]]"
    by (simp add: n_rows_def n_cols_def)
  have n: "n_rows [[0, 0], [1, 1], [2, 2::real]] = 3" by (simp add: n_rows_def)
  note main = eucdistance1_symmetric_zero_diagonal[OF m, of "[[0, 0], [1, 1], [2, 2]]"]
  from main s obtain D where D: "eucdistance1 [[0, 0], [1, 1], [2, 2]] [[0], [1]] = Inr D" by blast
  with main have "n_rows D = n_rows [[0, 0], [1, 1], [2, 2::real]] \<and>
      (\<forall>i<n_rows [[0, 0], [1, 1], [2, 2::real]]. \<forall>j<n_rows [[0, 0], [1, 1], [2, 2::real]].
          D ! i ! j = D ! j ! i \<and> D ! i ! i = 0)" by blast
  with D m show ?thesis unfolding n by blast
qed


section \<open>Properties of the Nadaraya-Watson engine\<close>


lemma fold_update_prefix:
  "k \<le> length a \<Longrightarrow> fold (\<lambda>i a. a[i := f i]) [0..<k] a = map f [0..<k] @ drop k a"
proof (induction k)
  case 0
  then show ?case by simp
next
  case (Suc k)
  then have "fold (\<lambda>i a. a[i := f i]) [0..<Suc k] a = (map f [0..<k] @ drop k a)[k := f k]"
    by simp
  also have "\<dots> = map f [0..<k] @ (drop k a)[0 := f k]"
    by (simp add: list_update_append)
  also have "drop k a = a ! k # drop (Suc k) a"
    using Suc.prems by (simp add: Cons_nth_drop_Suc)
  finally show ?case by simp
qed

lemma predict_loop_eq:
  assumes "length a = n_rows D"
  shows "predict_loop D Ys h a = map (\<lambda>i. kernel_ratio (D ! i) Ys h) [0..<n_rows D]"
  using fold_update_prefix[of "n_rows D" a "\<lambda>i. kernel_ratio (D ! i) Ys h"] assms
  by (simp add: predict_loop_def kernel_ratio_def Let_def)

lemma gaussiankernelinicial_kernel_a:
  "gaussiankernelinicial x h = map (\<lambda>d. kernel_a d h) x"
  by (simp add: gaussiankernelinicial_def kernel_a_def power2_eq_square)

lemma kernel_a_pos: "0 < kernel_a d h"
  by (simp add: kernel_a_def)

lemma sum_list_pos_real:
  fixes xs :: "real list"
  assumes "xs \<noteq> []" "\<And>x. x \<in> set xs \<Longrightarrow> 0 < x"
  shows "0 < sum_list xs"
  using assms
proof (induction xs)
  case Nil
  then show ?case by simp
next
  case (Cons x xs)
  show ?case
  proof (cases "xs = []")
    case True
    then show ?thesis using Cons.prems by simp
  next
    case False
    then have "0 < sum_list xs" using Cons by simp
    moreover have "0 < x" using Cons.prems by simp
    ultimately show ?thesis by simp
  qed
qed

lemma map2_index:
  assumes "length xs = length ys"
  shows "map2 f xs ys = map (\<lambda>k. f (xs ! k) (ys ! k)) [0..<length xs]"
  using assms by (intro nth_equalityI) simp_all

lemma map_index: "map f xs = map (\<lambda>k. f (xs ! k)) [0..<length xs]"
  by (intro nth_equalityI) simp_all

lemma kernel_ratio_nw_prediction:
  assumes "length ds = length ys"
  shows "kernel_ratio ds ys h = nw_prediction ds ys h"
proof -
  have "times_vec (map (\<lambda>d. kernel_a d h) ds) ys = map (\<lambda>k. kernel_a (ds ! k) h * ys ! k) [0..<length ds]"
    using assms by (intro nth_equalityI) (simp_all add: times_vec_def)
  moreover have "map (\<lambda>d. kernel_a d h) ds = map (\<lambda>k. kernel_a (ds ! k) h) [0..<length ds]"
    by (rule map_index)
  ultimately show ?thesis
    by (simp only: kernel_ratio_def nw_prediction_def gaussiankernelinicial_kernel_a)
qed

text \<open>
  Claim C9. Over the reals, for every bandwidth \<open>h > 0\<close> and every distance vector, each
  weight of the Gaussian-like kernel is strictly positive; so the sum of the weights of a
  non-empty vector is not zero, and in particular the denominator of every in-sample
  prediction ratio (the weights of a row of the self-distance matrix) is not zero.
\<close>
theorem gaussian_weights_positive:
  assumes "0 < h"
  shows "(\<forall>w\<in>set (gaussiankernelinicial x h). 0 < w)
       \<and> (x \<noteq> [] \<longrightarrow> sum_list (gaussiankernelinicial x h) \<noteq> 0)
       \<and> (\<forall>D i. eucdistance1 X t = Inr D \<and> i < n_rows X \<longrightarrow>
              sum_list (gaussiankernelinicial (D ! i) h) \<noteq> 0)"
proof (intro conjI ballI allI impI)
  fix w assume "w \<in> set (gaussiankernelinicial x h)"
  then show "0 < w" by (auto simp: gaussiankernelinicial_kernel_a kernel_a_pos)
next
  assume "x \<noteq> []"
  then have "0 < sum_list (gaussiankernelinicial x h)"
    by (intro sum_list_pos_real) (auto simp: gaussiankernelinicial_kernel_a kernel_a_pos)
  then show "sum_list (gaussiankernelinicial x h) \<noteq> 0" by simp
next
  fix D i assume a: "eucdistance1 X t = Inr D \<and> i < n_rows X"
  then have "length (D ! i) = n_rows X" using eucdistance1_entry(3)[of X t D i i] by simp
  then have "D ! i \<noteq> []" using a by auto
  then have "0 < sum_list (gaussiankernelinicial (D ! i) h)"
    by (intro sum_list_pos_real) (auto simp: gaussiankernelinicial_kernel_a kernel_a_pos)
  then show "sum_list (gaussiankernelinicial (D ! i) h) \<noteq> 0" by simp
qed

theorem gaussian_weights_positive_witness:
  "0 < (1::real)
   \<and> list_all (\<lambda>w. 0 < w) (gaussiankernelinicial [0, 1, 2] 1)
   \<and> sum_list (gaussiankernelinicial [0, 1, 2] 1) \<noteq> 0
   \<and> (\<exists>D. eucdistance1 [[0, 0], [1, 1], [2, 2]] (col_mat [0, 1]) = Inr D
          \<and> 0 < n_rows [[0, 0], [1, 1], [2, 2::real]]
          \<and> sum_list (gaussiankernelinicial (D ! 0) 1) \<noteq> 0)"
proof -
  have h: "0 < (1::real)" by simp
  have "\<exists>D. eucdistance1 [[0, 0], [1, 1], [2, 2]] (col_mat [0, 1]) = Inr D"
    by (rule eucdistance1_total) auto
  then obtain D where D: "eucdistance1 [[0, 0], [1, 1], [2, 2]] (col_mat [0, 1]) = Inr D" ..
  have n: "0 < n_rows [[0, 0], [1, 1], [2, 2::real]]" by (simp add: n_rows_def)
  note main = gaussian_weights_positive[OF h, of "[0, 1, 2]" "[[0, 0], [1, 1], [2, 2]]" "col_mat [0, 1]"]
  from main have "list_all (\<lambda>w. 0 < w) (gaussiankernelinicial [0, 1, 2] 1)"
    unfolding list_all_iff by (rule conjunct1)
  moreover from main have "sum_list (gaussiankernelinicial [0, 1, 2] 1) \<noteq> 0" by blast
  moreover from main D n have "sum_list (gaussiankernelinicial (D ! 0) 1) \<noteq> 0" by blast
  ultimately show ?thesis using h D n by blast
qed

lemma cv_loop_state:
  assumes "fold (cv_step D2 Y1 Y2 hs) [0..<k] (a, P, R) = (a', P', R')"
    and "length a = n_rows D2" "k \<le> length R"
  shows "length a' = n_rows D2 \<and> R' = map (\<lambda>j. step_sse D2 Y1 Y2 (hs ! j)) [0..<k] @ drop k R"
  using assms
proof (induction k arbitrary: a' P' R')
  case 0
  then show ?case by simp
next
  case (Suc k)
  obtain a1 P1 R1 where mid: "fold (cv_step D2 Y1 Y2 hs) [0..<k] (a, P, R) = (a1, P1, R1)"
    by (metis prod_cases3)
  from Suc.IH[OF mid] Suc.prems have a1: "length a1 = n_rows D2"
    and R1: "R1 = map (\<lambda>j. step_sse D2 Y1 Y2 (hs ! j)) [0..<k] @ drop k R" by simp_all
  from Suc.prems(1) mid have step: "cv_step D2 Y1 Y2 hs k (a1, P1, R1) = (a', P', R')" by simp
  have a': "a' = map (\<lambda>i. kernel_ratio (D2 ! i) Y1 (hs ! k)) [0..<n_rows D2]"
    using step predict_loop_eq[OF a1] by (simp add: cv_step_def Let_def)
  have "R' = R1[k := step_sse D2 Y1 Y2 (hs ! k)]"
    using step predict_loop_eq[OF a1] by (auto simp: cv_step_def Let_def step_sse_def)
  also have "\<dots> = map (\<lambda>j. step_sse D2 Y1 Y2 (hs ! j)) [0..<k] @ (drop k R)[0 := step_sse D2 Y1 Y2 (hs ! k)]"
    by (simp add: R1 list_update_append)
  also have "drop k R = R ! k # drop (Suc k) R"
    using Suc.prems(3) by (simp add: Cons_nth_drop_Suc)
  finally show ?case using a' by simp
qed

lemma step_sse_fold_sse:
  "step_sse (map (\<lambda>r. map ((!) r) i1) (map ((!) D) i2)) (map ((!) Y) i1) (map ((!) Y) i2) h
   = fold_sse D Y i1 i2 h"
proof -
  let ?D2 = "map (\<lambda>r. map ((!) r) i1) (map ((!) D) i2)"
  let ?p = "\<lambda>i. nw_prediction (map ((!) (D ! i)) i1) (map ((!) Y) i1) h"
  have p: "map (\<lambda>i. kernel_ratio (?D2 ! i) (map ((!) Y) i1) h) [0..<n_rows ?D2]
           = map (\<lambda>k. ?p (i2 ! k)) [0..<length i2]"
    by (rule nth_equalityI) (simp_all add: n_rows_def kernel_ratio_nw_prediction)
  have r: "minus_vec (map ((!) Y) i2) (map (\<lambda>k. ?p (i2 ! k)) [0..<length i2])
           = map (\<lambda>k. Y ! (i2 ! k) - ?p (i2 ! k)) [0..<length i2]"
    by (rule nth_equalityI) (simp_all add: minus_vec_def)
  have "times_vec (map (\<lambda>k. Y ! (i2 ! k) - ?p (i2 ! k)) [0..<length i2])
                  (map (\<lambda>k. Y ! (i2 ! k) - ?p (i2 ! k)) [0..<length i2])
        = map (\<lambda>k. (Y ! (i2 ! k) - ?p (i2 ! k))\<^sup>2) [0..<length i2]"
    by (rule nth_equalityI) (simp_all add: times_vec_def power2_eq_square)
  moreover have "map (\<lambda>i. (Y ! i - ?p i)\<^sup>2) i2 = map (\<lambda>k. (Y ! (i2 ! k) - ?p (i2 ! k))\<^sup>2) [0..<length i2]"
    by (rule map_index)
  ultimately show ?thesis
    unfolding step_sse_def Let_def p r fold_sse_def by simp
qed


lemma set_col_nth:
  assumes "length v = length M" "j < length M"
  shows "set_col l v M ! j = (M ! j)[l := v ! j]"
  using assms by (simp add: set_col_def)

lemma length_set_col: "length v = length M \<Longrightarrow> length (set_col l v M) = length M"
  by (simp add: set_col_def)

lemma cv_loop_result:
  assumes "length a = n_rows D2" "length R = length hs"
  shows "(case fold (cv_step D2 Y1 Y2 hs) [0..<length hs] (a, P, R) of
            (aux3x, prediciones2, Raux) \<Rightarrow> F Raux)
         = F (map (\<lambda>j. step_sse D2 Y1 Y2 (hs ! j)) [0..<length hs])"
proof -
  obtain a' P' R' where f: "fold (cv_step D2 Y1 Y2 hs) [0..<length hs] (a, P, R) = (a', P', R')"
    by (metis prod_cases3)
  from cv_loop_state[OF f assms(1)] assms(2)
  have "R' = map (\<lambda>j. step_sse D2 Y1 Y2 (hs ! j)) [0..<length hs]" by simp
  then show ?thesis by (simp add: f)
qed

lemma cv_fold_eq:
  assumes "l < n_cols I1" "l < n_cols I2"
    and "\<forall>r\<in>set I1. r ! l < length Y \<and> r ! l < n_rows D"
    and "\<forall>r\<in>set I2. r ! l < length Y \<and> r ! l < n_rows D"
    and "I2 \<noteq> []" "length Ra = length hs"
  shows "cv_fold D Y hs I1 I2 l (M, Ra) =
         Inr (set_col l (map (\<lambda>j. fold_sse D Y (map (\<lambda>r. r ! l) I1) (map (\<lambda>r. r ! l) I2) (hs ! j))
                             [0..<length hs]) M,
              map (\<lambda>j. fold_sse D Y (map (\<lambda>r. r ! l) I1) (map (\<lambda>r. r ! l) I2) (hs ! j))
                  [0..<length hs])"
proof -
  let ?i1 = "map (\<lambda>r. r ! l) I1" and ?i2 = "map (\<lambda>r. r ! l) I2"
  let ?D2 = "map (\<lambda>r. map ((!) r) ?i1) (map ((!) D) ?i2)"
  have c1: "col_of I1 l = Inr ?i1" and c2: "col_of I2 l = Inr ?i2"
    using assms(1,2) by (simp_all add: col_of_def)
  have s1: "select_rows Y ?i1 = Inr (map ((!) Y) ?i1)"
    and s2: "select_rows Y ?i2 = Inr (map ((!) Y) ?i2)"
    and s3: "select_rows D ?i2 = Inr (map ((!) D) ?i2)"
    and s4: "select_cols (n_rows D) (map ((!) D) ?i2) ?i1 = Inr ?D2"
    using assms(3,4) by (simp_all add: select_rows_def select_cols_def list_all_iff n_rows_def)
  have ne: "map ((!) Y) ?i2 \<noteq> []" using assms(5) by simp
  have len: "length (replicate (n_rows I2) (0::real)) = n_rows ?D2" by (simp add: n_rows_def)
  have "cv_fold D Y hs I1 I2 l (M, Ra) =
        (case fold (cv_step ?D2 (map ((!) Y) ?i1) (map ((!) Y) ?i2) hs) [0..<length hs]
                   (replicate (n_rows I2) 0, zeros (n_rows I2) (length hs), Ra) of
           (aux3x, prediciones2, Raux) \<Rightarrow> Inr (set_col l Raux M, Raux))"
    unfolding cv_fold_def c1 c2 s1 s2 s3 s4 bindE_def sum.case Let_def
    using ne by (simp only: if_False fst_conv snd_conv)
  then show ?thesis
    unfolding cv_loop_result[OF len assms(6)] step_sse_fold_sse .
qed

lemma cv_folds:
  assumes "\<forall>l\<in>set ls. l < n_cols I1 \<and> l < n_cols I2"
    and "\<forall>r\<in>set I1. \<forall>l\<in>set ls. r ! l < length Y \<and> r ! l < n_rows D"
    and "\<forall>r\<in>set I2. \<forall>l\<in>set ls. r ! l < length Y \<and> r ! l < n_rows D"
    and "I2 \<noteq> []" "distinct ls" "length Ra = length hs" "length M = length hs"
  shows "\<exists>M' Ra'. foldE (cv_fold D Y hs I1 I2) ls (M, Ra) = Inr (M', Ra')
           \<and> length M' = length hs
           \<and> (\<forall>j<length hs. length (M' ! j) = length (M ! j) \<and>
                 (\<forall>l<length (M ! j). M' ! j ! l =
                    (if l \<in> set ls
                     then fold_sse D Y (map (\<lambda>r. r ! l) I1) (map (\<lambda>r. r ! l) I2) (hs ! j)
                     else M ! j ! l)))"
  using assms
proof (induction ls arbitrary: M Ra)
  case Nil
  then show ?case by simp
next
  case (Cons l ls)
  let ?G = "\<lambda>l j. fold_sse D Y (map (\<lambda>r. r ! l) I1) (map (\<lambda>r. r ! l) I2) (hs ! j)"
  let ?R = "map (?G l) [0..<length hs]"
  let ?M1 = "set_col l ?R M"
  have step: "cv_fold D Y hs I1 I2 l (M, Ra) = Inr (?M1, ?R)"
    using Cons.prems by (intro cv_fold_eq) auto
  have lenM1: "length ?M1 = length hs" using Cons.prems(7) by (simp add: length_set_col)
  have "\<exists>M' Ra'. foldE (cv_fold D Y hs I1 I2) ls (?M1, ?R) = Inr (M', Ra')
           \<and> length M' = length hs
           \<and> (\<forall>j<length hs. length (M' ! j) = length (?M1 ! j) \<and>
                 (\<forall>l'<length (?M1 ! j). M' ! j ! l' = (if l' \<in> set ls then ?G l' j else ?M1 ! j ! l')))"
    using Cons.prems lenM1 by (intro Cons.IH) auto
  then obtain M' Ra' where rest: "foldE (cv_fold D Y hs I1 I2) ls (?M1, ?R) = Inr (M', Ra')"
    and lenM': "length M' = length hs"
    and ent: "\<And>j. j < length hs \<Longrightarrow> length (M' ! j) = length (?M1 ! j) \<and>
                 (\<forall>l'<length (?M1 ! j). M' ! j ! l' = (if l' \<in> set ls then ?G l' j else ?M1 ! j ! l'))"
    by blast
  have row: "?M1 ! j = (M ! j)[l := ?G l j]" if "j < length hs" for j
    using that Cons.prems(7) by (simp add: set_col_nth)
  have "foldE (cv_fold D Y hs I1 I2) (l # ls) (M, Ra) = Inr (M', Ra')"
    using step rest by (simp add: bindE_def)
  moreover have "length (M' ! j) = length (M ! j) \<and>
        (\<forall>l'<length (M ! j). M' ! j ! l' = (if l' \<in> set (l # ls) then ?G l' j else M ! j ! l'))"
    if j: "j < length hs" for j
  proof -
    have "l \<notin> set ls" using Cons.prems(5) by simp
    then show ?thesis using ent[OF j] row[OF j] by (auto simp: nth_list_update)
  qed
  ultimately show ?case using lenM' by blast
qed


lemma is_mat_nth_mem:
  assumes "is_mat M" "l < n_cols M" "r \<in> set M"
  shows "r ! l \<in> set r"
  using assms by (auto simp: is_mat_def list_all_iff)

text \<open>
  Claim C4. For curves on a common grid, one outcome per curve, and partition index
  matrices with in-range indices and at least one validation row, the engine returns, and
  entry \<open>(j, l)\<close> of the field \<open>r2_global\<close> is the raw sum of squared validation
  errors of fold \<open>l\<close> at bandwidth \<open>j\<close>, the predictions being kernel-weighted means of
  that fold's training outcomes only.
\<close>
theorem cv_matrix_is_raw_sse:
  assumes "\<forall>r\<in>set X. length r = length ts" and "2 \<le> length ts"
    and "length Y = n_rows X" and "Y \<noteq> []"
    and "is_mat indices1" and "is_mat indices2" and "indices2 \<noteq> []"
    and "n_cols indices1 \<le> n_cols indices2"
    and "\<forall>r\<in>set indices1. \<forall>k\<in>set r. k < n_rows X"
    and "\<forall>r\<in>set indices2. \<forall>k\<in>set r. k < n_rows X"
  shows "\<exists>D res. eucdistance1 X (col_mat ts) = Inr D
           \<and> nadayara_regression X (col_mat ts) Y hs indices1 indices2 = Inr res
           \<and> (\<forall>j<length hs. \<forall>l<n_cols indices1.
                 r2_global res ! j ! l =
                 fold_sse D Y (map (\<lambda>r. r ! l) indices1) (map (\<lambda>r. r ! l) indices2) (hs ! j))"
proof -
  let ?nh = "length hs" and ?p = "n_cols indices1"
  from eucdistance1_total[of X ts] assms(1,2)
  obtain D where D: "eucdistance1 X (col_mat ts) = Inr D" by blast
  have nD: "n_rows D = n_rows X"
    using D by (auto simp: eucdistance1_def Let_def n_rows_def dest: mapE_nth(1))
  have v1: "\<forall>r\<in>set indices1. \<forall>l\<in>set [0..<?p]. r ! l < length Y \<and> r ! l < n_rows D"
    using assms(3,5,9) nD is_mat_nth_mem[of indices1] by auto
  have v2: "\<forall>r\<in>set indices2. \<forall>l\<in>set [0..<?p]. r ! l < length Y \<and> r ! l < n_rows D"
    using assms(3,6,8,10) nD is_mat_nth_mem[of indices2] by auto
  have v0: "\<forall>l\<in>set [0..<?p]. l < n_cols indices1 \<and> l < n_cols indices2"
    using assms(8) by auto
  from cv_folds[OF v0 v1 v2 assms(7), of "replicate ?nh 0" hs "zeros ?nh ?p"]
  obtain M' Ra' where
    f: "foldE (cv_fold D Y hs indices1 indices2) [0..<?p] (zeros ?nh ?p, replicate ?nh 0) = Inr (M', Ra')"
    and ent: "\<forall>j<?nh. length (M' ! j) = length (zeros ?nh ?p ! j) \<and>
                 (\<forall>l<length (zeros ?nh ?p ! j). M' ! j ! l =
                    (if l \<in> set [0..<?p]
                     then fold_sse D Y (map (\<lambda>r. r ! l) indices1) (map (\<lambda>r. r ! l) indices2) (hs ! j)
                     else zeros ?nh ?p ! j ! l))"
    by (auto simp: zeros_def)
  obtain a P G R E where
    ins: "fold (insample_step D Y (minus_vec Y (replicate (n_rows X) (sum_list Y / real (n_rows X)))) hs)
            [0..<?nh] (replicate (n_rows X) 0, zeros (n_rows X) ?nh, zeros (n_rows X) ?nh,
                       replicate ?nh 0, replicate ?nh 0) = (a, P, G, R, E)"
    by (metis prod_cases5)
  let ?res = "\<lparr>prediction = P, residuals = G, r2 = col_mat R, error = col_mat E, r2_global = M'\<rparr>"
  have "nadayara_regression X (col_mat ts) Y hs indices1 indices2 = Inr ?res"
    using assms(3,4) by (simp add: nadayara_regression_def Let_def D f ins bindE_def)
  moreover have "r2_global ?res ! j ! l =
       fold_sse D Y (map (\<lambda>r. r ! l) indices1) (map (\<lambda>r. r ! l) indices2) (hs ! j)"
    if "j < ?nh" "l < ?p" for j l
    using ent that by (simp add: zeros_def)
  ultimately show ?thesis using D by blast
qed

theorem cv_matrix_is_raw_sse_witness:
  "list_all (\<lambda>r. length r = length [0, 1::real]) [[0, 0], [1, 1], [2, 2::real]]
   \<and> 2 \<le> length [0, 1::real]
   \<and> length [1, 2, 3::real] = n_rows [[0, 0], [1, 1], [2, 2::real]]
   \<and> [1, 2, 3::real] \<noteq> []
   \<and> is_mat [[0, 1], [1, 2::nat]] \<and> is_mat [[2, 0::nat]] \<and> [[2, 0::nat]] \<noteq> []
   \<and> n_cols [[0, 1], [1, 2::nat]] \<le> n_cols [[2, 0::nat]]
   \<and> list_all (list_all (\<lambda>k. k < n_rows [[0, 0], [1, 1], [2, 2::real]])) [[0, 1], [1, 2]]
   \<and> list_all (list_all (\<lambda>k. k < n_rows [[0, 0], [1, 1], [2, 2::real]])) [[2, 0]]
   \<and> (\<exists>D res. eucdistance1 [[0, 0], [1, 1], [2, 2]] (col_mat [0, 1]) = Inr D
           \<and> nadayara_regression [[0, 0], [1, 1], [2, 2]] (col_mat [0, 1]) [1, 2, 3] [1, 2]
                 [[0, 1], [1, 2]] [[2, 0]] = Inr res
           \<and> (\<forall>j<length [1, 2::real]. \<forall>l<n_cols [[0, 1], [1, 2::nat]].
                 r2_global res ! j ! l =
                 fold_sse D [1, 2, 3] (map (\<lambda>r. r ! l) [[0, 1], [1, 2]]) (map (\<lambda>r. r ! l) [[2, 0]])
                          ([1, 2] ! j)))"
proof -
  have h: "\<forall>r\<in>set [[0, 0], [1, 1], [2, 2::real]]. length r = length [0, 1::real]"
    "2 \<le> length [0, 1::real]"
    "length [1, 2, 3::real] = n_rows [[0, 0], [1, 1], [2, 2::real]]"
    "[1, 2, 3::real] \<noteq> []"
    "is_mat [[0, 1], [1, 2::nat]]" "is_mat [[2, 0::nat]]" "[[2, 0::nat]] \<noteq> []"
    "n_cols [[0, 1], [1, 2::nat]] \<le> n_cols [[2, 0::nat]]"
    "\<forall>r\<in>set [[0, 1], [1, 2::nat]]. \<forall>k\<in>set r. k < n_rows [[0, 0], [1, 1], [2, 2::real]]"
    "\<forall>r\<in>set [[2, 0::nat]]. \<forall>k\<in>set r. k < n_rows [[0, 0], [1, 1], [2, 2::real]]"
    by (simp_all add: is_mat_def n_cols_def n_rows_def)
  show ?thesis
    unfolding list_all_iff
    by (intro conjI h cv_matrix_is_raw_sse[OF h, of "[1, 2]"])
qed



lemma pred_loop_state:
  assumes "fold (pred_step D2 Y1 hs) [0..<k] (a, P) = (a', P')"
    and "length a = n_rows D2" "length P = n_rows D2" "\<forall>i<n_rows D2. k \<le> length (P ! i)"
  shows "length a' = n_rows D2 \<and>
         P' = map (\<lambda>i. map (\<lambda>j. kernel_ratio (D2 ! i) Y1 (hs ! j)) [0..<k] @ drop k (P ! i))
                  [0..<n_rows D2]"
  using assms
proof (induction k arbitrary: a' P')
  case 0
  then show ?case by (auto intro: nth_equalityI)
next
  case (Suc k)
  let ?g = "\<lambda>i j. kernel_ratio (D2 ! i) Y1 (hs ! j)"
  obtain a1 P1 where mid: "fold (pred_step D2 Y1 hs) [0..<k] (a, P) = (a1, P1)"
    by (metis surj_pair)
  from Suc.IH[OF mid] Suc.prems have a1: "length a1 = n_rows D2"
    and P1: "P1 = map (\<lambda>i. map (?g i) [0..<k] @ drop k (P ! i)) [0..<n_rows D2]"
    by (simp_all add: Suc_leD)
  from Suc.prems(1) mid have step: "pred_step D2 Y1 hs k (a1, P1) = (a', P')" by simp
  have a': "a' = map (\<lambda>i. ?g i k) [0..<n_rows D2]"
    using step predict_loop_eq[OF a1] by (auto simp: pred_step_def Let_def)
  have "P' = set_col k a' P1"
    using step by (auto simp: pred_step_def Let_def)
  also have "\<dots> = map (\<lambda>i. map (?g i) [0..<Suc k] @ drop (Suc k) (P ! i)) [0..<n_rows D2]"
  proof (rule nth_equalityI)
    show "length (set_col k a' P1) = length (map (\<lambda>i. map (?g i) [0..<Suc k] @ drop (Suc k) (P ! i)) [0..<n_rows D2])"
      by (simp add: set_col_def a' P1)
  next
    fix i assume "i < length (set_col k a' P1)"
    then have i: "i < n_rows D2" by (simp add: set_col_def a' P1)
    then have "k < length (P ! i)" using Suc.prems(4) by auto
    then have d: "drop k (P ! i) = P ! i ! k # drop (Suc k) (P ! i)"
      by (simp add: Cons_nth_drop_Suc)
    have "set_col k a' P1 ! i = (map (?g i) [0..<k] @ drop k (P ! i))[k := ?g i k]"
      using i by (simp add: set_col_def a' P1)
    also have "\<dots> = map (?g i) [0..<k] @ (drop k (P ! i))[0 := ?g i k]"
      by (simp add: list_update_append)
    finally show "set_col k a' P1 ! i = map (\<lambda>i. map (?g i) [0..<Suc k] @ drop (Suc k) (P ! i)) [0..<n_rows D2] ! i"
      using i d by simp
  qed
  finally show ?case using a' by simp
qed

lemma pred_loop_result:
  "(case fold (pred_step D2 Y1 hs) [0..<length hs]
              (replicate (n_rows D2) 0, zeros (n_rows D2) (length hs)) of
      (aux3x, prediciones2) \<Rightarrow> F prediciones2)
   = F (map (\<lambda>i. map (\<lambda>h. kernel_ratio (D2 ! i) Y1 h) hs) [0..<n_rows D2])"
proof -
  obtain a' P' where f: "fold (pred_step D2 Y1 hs) [0..<length hs]
              (replicate (n_rows D2) 0, zeros (n_rows D2) (length hs)) = (a', P')"
    by (metis surj_pair)
  have "P' = map (\<lambda>i. map (\<lambda>j. kernel_ratio (D2 ! i) Y1 (hs ! j)) [0..<length hs]
                        @ drop (length hs) (zeros (n_rows D2) (length hs) ! i)) [0..<n_rows D2]"
    using pred_loop_state[OF f] by (simp add: zeros_def)
  also have "\<dots> = map (\<lambda>i. map (\<lambda>h. kernel_ratio (D2 ! i) Y1 h) hs) [0..<n_rows D2]"
    by (rule map_cong) (simp_all add: zeros_def map_index[of _ hs, symmetric])
  finally show ?thesis by (simp add: f)
qed

lemma pred_fold_eq:
  assumes "l < n_cols I1" "l < n_cols I2"
    and "\<forall>r\<in>set I1. r ! l < length Y \<and> r ! l < n_rows D"
    and "\<forall>r\<in>set I2. r ! l < n_rows D"
  shows "pred_fold D Y hs I1 I2 l Pf =
         Inr (fold_predictions D Y (map (\<lambda>r. r ! l) I1) (map (\<lambda>r. r ! l) I2) hs)"
proof -
  let ?i1 = "map (\<lambda>r. r ! l) I1" and ?i2 = "map (\<lambda>r. r ! l) I2"
  let ?D2 = "map (\<lambda>r. map ((!) r) ?i1) (map ((!) D) ?i2)"
  have c1: "col_of I1 l = Inr ?i1" and c2: "col_of I2 l = Inr ?i2"
    using assms(1,2) by (simp_all add: col_of_def)
  have s1: "select_rows Y ?i1 = Inr (map ((!) Y) ?i1)"
    and s3: "select_rows D ?i2 = Inr (map ((!) D) ?i2)"
    and s4: "select_cols (n_rows D) (map ((!) D) ?i2) ?i1 = Inr ?D2"
    using assms(3,4) by (simp_all add: select_rows_def select_cols_def list_all_iff n_rows_def)
  have n: "n_rows I2 = n_rows ?D2" by (simp add: n_rows_def)
  have "pred_fold D Y hs I1 I2 l Pf =
        (case fold (pred_step ?D2 (map ((!) Y) ?i1) hs) [0..<length hs]
                   (replicate (n_rows ?D2) 0, zeros (n_rows ?D2) (length hs)) of
           (aux3x, prediciones2) \<Rightarrow> Inr prediciones2)"
    unfolding pred_fold_def c1 c2 s1 s3 s4 bindE_def sum.case Let_def n ..
  also have "\<dots> = Inr (map (\<lambda>i. map (\<lambda>h. kernel_ratio (?D2 ! i) (map ((!) Y) ?i1) h) hs) [0..<n_rows ?D2])"
    by (rule pred_loop_result)
  also have "map (\<lambda>i. map (\<lambda>h. kernel_ratio (?D2 ! i) (map ((!) Y) ?i1) h) hs) [0..<n_rows ?D2]
             = fold_predictions D Y ?i1 ?i2 hs"
    unfolding fold_predictions_def
    by (rule nth_equalityI) (simp_all add: n_rows_def kernel_ratio_nw_prediction)
  finally show ?thesis .
qed

lemma pred_folds:
  assumes "ls \<noteq> []" "\<forall>l\<in>set ls. l < n_cols I1 \<and> l < n_cols I2"
    and "\<forall>r\<in>set I1. \<forall>l\<in>set ls. r ! l < length Y \<and> r ! l < n_rows D"
    and "\<forall>r\<in>set I2. \<forall>l\<in>set ls. r ! l < n_rows D"
  shows "foldE (pred_fold D Y hs I1 I2) ls Pf =
         Inr (fold_predictions D Y (map (\<lambda>r. r ! last ls) I1) (map (\<lambda>r. r ! last ls) I2) hs)"
  using assms
proof (induction ls arbitrary: Pf)
  case Nil
  then show ?case by simp
next
  case (Cons l ls)
  have step: "pred_fold D Y hs I1 I2 l Pf =
         Inr (fold_predictions D Y (map (\<lambda>r. r ! l) I1) (map (\<lambda>r. r ! l) I2) hs)"
    using Cons.prems by (intro pred_fold_eq) auto
  show ?case
  proof (cases "ls = []")
    case True
    then show ?thesis using step by (simp add: bindE_def)
  next
    case False
    then have "foldE (pred_fold D Y hs I1 I2) ls
                 (fold_predictions D Y (map (\<lambda>r. r ! l) I1) (map (\<lambda>r. r ! l) I2) hs) =
         Inr (fold_predictions D Y (map (\<lambda>r. r ! last ls) I1) (map (\<lambda>r. r ! last ls) I2) hs)"
      using Cons.prems by (intro Cons.IH) auto
    then show ?thesis using step False by (simp add: bindE_def)
  qed
qed

text \<open>
  Claim C5. For curves on a common grid and partition index matrices with
  \<open>p > 0\<close> columns and in-range indices, the prediction-only operation returns exactly
  the matrix of kernel-weighted predictions, one column per bandwidth, computed from
  column \<open>p - 1\<close> of the two index matrices. The returned matrix is a function of that
  last column alone: what the earlier columns produce is overwritten.
\<close>
theorem prediction_uses_last_partition_column:
  assumes "\<forall>r\<in>set X. length r = length ts" and "2 \<le> length ts"
    and "is_mat indices1" and "is_mat indices2"
    and "0 < n_cols indices1" and "n_cols indices1 \<le> n_cols indices2"
    and "\<forall>r\<in>set indices1. \<forall>k\<in>set r. k < n_rows X \<and> k < length Y"
    and "\<forall>r\<in>set indices2. \<forall>k\<in>set r. k < n_rows X"
  shows "\<exists>D. eucdistance1 X (col_mat ts) = Inr D
           \<and> nadayara_predicion X (col_mat ts) Y hs indices1 indices2 =
               Inr (fold_predictions D Y (map (\<lambda>r. r ! (n_cols indices1 - 1)) indices1)
                                         (map (\<lambda>r. r ! (n_cols indices1 - 1)) indices2) hs)"
proof -
  let ?p = "n_cols indices1"
  from eucdistance1_total[of X ts] assms(1,2)
  obtain D where D: "eucdistance1 X (col_mat ts) = Inr D" by blast
  have nD: "n_rows D = n_rows X"
    using D by (auto simp: eucdistance1_def Let_def n_rows_def dest: mapE_nth(1))
  have ne: "[0..<?p] \<noteq> []" using assms(5) by simp
  have v0: "\<forall>l\<in>set [0..<?p]. l < n_cols indices1 \<and> l < n_cols indices2"
    using assms(6) by auto
  have v1: "\<forall>r\<in>set indices1. \<forall>l\<in>set [0..<?p]. r ! l < length Y \<and> r ! l < n_rows D"
    using assms(3,7) nD is_mat_nth_mem[of indices1] by auto
  have v2: "\<forall>r\<in>set indices2. \<forall>l\<in>set [0..<?p]. r ! l < n_rows D"
    using assms(4,6,8) nD is_mat_nth_mem[of indices2] by auto
  have l: "last [0..<?p] = ?p - 1" using assms(5) by (simp add: last_upt)
  show ?thesis
    using D pred_folds[OF ne v0 v1 v2, of hs] 
    by (simp add: nadayara_predicion_def Let_def bindE_def l)
qed

theorem prediction_uses_last_partition_column_witness:
  "list_all (\<lambda>r. length r = length [0, 1::real]) [[0, 0], [1, 1], [2, 2::real]]
   \<and> 2 \<le> length [0, 1::real]
   \<and> is_mat [[0, 1], [1, 2::nat]] \<and> is_mat [[2, 0::nat]]
   \<and> 0 < n_cols [[0, 1], [1, 2::nat]]
   \<and> n_cols [[0, 1], [1, 2::nat]] \<le> n_cols [[2, 0::nat]]
   \<and> list_all (list_all (\<lambda>k. k < n_rows [[0, 0], [1, 1], [2, 2::real]] \<and> k < length [1, 2, 3::real]))
         [[0, 1], [1, 2]]
   \<and> list_all (list_all (\<lambda>k. k < n_rows [[0, 0], [1, 1], [2, 2::real]])) [[2, 0]]
   \<and> (\<exists>D. eucdistance1 [[0, 0], [1, 1], [2, 2]] (col_mat [0, 1]) = Inr D
          \<and> nadayara_predicion [[0, 0], [1, 1], [2, 2]] (col_mat [0, 1]) [1, 2, 3] [1, 2]
                [[0, 1], [1, 2]] [[2, 0]] =
              Inr (fold_predictions D [1, 2, 3] [1, 2] [0] [1, 2]))"
proof -
  have h: "\<forall>r\<in>set [[0, 0], [1, 1], [2, 2::real]]. length r = length [0, 1::real]"
    "2 \<le> length [0, 1::real]"
    "is_mat [[0, 1], [1, 2::nat]]" "is_mat [[2, 0::nat]]"
    "0 < n_cols [[0, 1], [1, 2::nat]]"
    "n_cols [[0, 1], [1, 2::nat]] \<le> n_cols [[2, 0::nat]]"
    "\<forall>r\<in>set [[0, 1], [1, 2::nat]]. \<forall>k\<in>set r.
          k < n_rows [[0, 0], [1, 1], [2, 2::real]] \<and> k < length [1, 2, 3::real]"
    "\<forall>r\<in>set [[2, 0::nat]]. \<forall>k\<in>set r. k < n_rows [[0, 0], [1, 1], [2, 2::real]]"
    by (simp_all add: is_mat_def n_cols_def n_rows_def)
  have c: "n_cols [[0, 1], [1, 2::nat]] - 1 = 1" by (simp add: n_cols_def)
  have "\<exists>D. eucdistance1 [[0, 0], [1, 1], [2, 2]] (col_mat [0, 1]) = Inr D
          \<and> nadayara_predicion [[0, 0], [1, 1], [2, 2]] (col_mat [0, 1]) [1, 2, 3] [1, 2]
                [[0, 1], [1, 2]] [[2, 0]] =
              Inr (fold_predictions D [1, 2, 3] [1, 2] [0] [1, 2])"
    using prediction_uses_last_partition_column[OF h, of "[1, 2]"] unfolding c by simp
  then show ?thesis
    unfolding list_all_iff by (intro conjI h)
qed

section \<open>Properties of the row canonicalization\<close>


lemma find_index_from_no_match:
  "(\<And>rowC. rowC \<in> set C \<Longrightarrow> \<not> approx_equal rowA rowC 0.002) \<Longrightarrow> find_index_from i C rowA = 0"
  by (induction C arbitrary: i) simp_all

text \<open>
  Claim C10. The lookup that maps a covariate row to its representative returns index 0,
  the first canonical row, whenever the row matches no canonical row within the absolute
  tolerance 0.002: an unmatched row is assigned to the first representative and no error
  is raised.
\<close>
theorem find_index_unmatched_is_zero:
  assumes "\<forall>rowC\<in>set C. \<not> approx_equal rowA rowC 0.002"
  shows "find_index C rowA = 0"
  using assms by (simp add: find_index_def find_index_from_no_match)

theorem find_index_unmatched_is_zero_witness:
  "\<not> list_ex (\<lambda>rowC. approx_equal [5] rowC 0.002) [[0], [1::real]]
   \<and> find_index [[0], [1]] [5] = 0"
proof -
  have h: "\<forall>rowC\<in>set [[0], [1::real]]. \<not> approx_equal [5] rowC 0.002"
    by (simp add: approx_equal_def)
  from find_index_unmatched_is_zero[OF h] h show ?thesis
    unfolding list_ex_iff by blast
qed

lemma approx_equal_refl: "0 \<le> tol \<Longrightarrow> approx_equal a a tol"
  by (simp add: approx_equal_def list_all2_conv_all_nth)

lemma find_index_from_match:
  assumes "\<exists>rowC\<in>set C. approx_equal rowA rowC 0.002"
  shows "i \<le> find_index_from i C rowA \<and> find_index_from i C rowA - i < length C
         \<and> approx_equal rowA (C ! (find_index_from i C rowA - i)) 0.002"
  using assms
proof (induction C arbitrary: i)
  case Nil
  then show ?case by simp
next
  case (Cons rowC C)
  show ?case
  proof (cases "approx_equal rowA rowC 0.002")
    case True
    then show ?thesis by simp
  next
    case False
    then have "\<exists>rowC\<in>set C. approx_equal rowA rowC 0.002" using Cons.prems by auto
    from Cons.IH[OF this, of "i + 1"]
    have k: "i + 1 \<le> find_index_from (i + 1) C rowA"
      "find_index_from (i + 1) C rowA - (i + 1) < length C"
      "approx_equal rowA (C ! (find_index_from (i + 1) C rowA - (i + 1))) 0.002" by auto
    from k(1) have "find_index_from (i + 1) C rowA - i = Suc (find_index_from (i + 1) C rowA - (i + 1))"
      by simp
    with k False show ?thesis by simp
  qed
qed

lemma find_index_match:
  assumes "\<exists>rowC\<in>set C. approx_equal rowA rowC 0.002"
  shows "find_index C rowA < length C \<and> approx_equal rowA (C ! find_index C rowA) 0.002"
  using find_index_from_match[OF assms, of 0] by (simp add: find_index_def)

lemma collect_rows_fold:
  fixes B0 :: mat
  defines "f \<equiv> \<lambda>rowA B. if list_ex (\<lambda>rowB. approx_equal rowA rowB 0.002) B then B else B @ [rowA]"
  shows "set B0 \<subseteq> set (fold f A B0)
       \<and> (\<forall>a\<in>set A. \<exists>b\<in>set (fold f A B0). approx_equal a b 0.002)
       \<and> (B0 \<noteq> [] \<longrightarrow> hd (fold f A B0) = hd B0)"
proof (induction A arbitrary: B0)
  case Nil
  then show ?case by simp
next
  case (Cons a A)
  have s: "set B0 \<subseteq> set (f a B0)" by (auto simp: f_def)
  have m: "\<exists>b\<in>set (f a B0). approx_equal a b 0.002"
    by (auto simp: f_def list_ex_iff approx_equal_refl)
  have h: "B0 \<noteq> [] \<longrightarrow> f a B0 \<noteq> [] \<and> hd (f a B0) = hd B0" by (auto simp: f_def)
  from Cons[of "f a B0"] s m h show ?case by (auto; blast)
qed

lemma collect_rows_props:
  assumes "A \<noteq> []"
  shows "collect_rows A \<noteq> []" and "hd (collect_rows A) = hd A"
    and "\<forall>a\<in>set A. \<exists>b\<in>set (collect_rows A). approx_equal a b 0.002"
proof -
  obtain a A' where A: "A = a # A'" using assms by (cases A) auto
  let ?f = "\<lambda>rowA B. if list_ex (\<lambda>rowB. approx_equal rowA rowB 0.002) B then B else B @ [rowA]"
  have c: "collect_rows A = fold ?f A' [a]" by (simp add: collect_rows_def A)
  from collect_rows_fold[of "[a]" A'] have
    1: "a \<in> set (fold ?f A' [a])" and
    2: "\<forall>x\<in>set A'. \<exists>b\<in>set (fold ?f A' [a]). approx_equal x b 0.002" and
    3: "hd (fold ?f A' [a]) = a" by auto
  from 1 show "collect_rows A \<noteq> []" unfolding c by auto
  from 3 show "hd (collect_rows A) = hd A" unfolding c by (simp add: A)
  have "approx_equal a a 0.002" by (simp add: approx_equal_refl)
  with 1 have "\<exists>b\<in>set (fold ?f A' [a]). approx_equal a b 0.002" by blast
  with 2 have "\<forall>x\<in>set (a # A'). \<exists>b\<in>set (fold ?f A' [a]). approx_equal x b 0.002" by simp
  then show "\<forall>a\<in>set A. \<exists>b\<in>set (collect_rows A). approx_equal a b 0.002"
    unfolding c unfolding A .
qed

lemma mset_swap_inner:
  assumes "i < length ind" "\<forall>j\<in>set js. j < length ind"
  shows "mset (swap_inner B i js ind) = mset ind"
  using assms
proof (induction js arbitrary: ind)
  case Nil
  then show ?case by simp
next
  case (Cons j js)
  let ?ind' = "if is_smaller B (ind ! i) (ind ! j) then ind[i := ind ! j, j := ind ! i] else ind"
  have m: "mset ?ind' = mset ind"
    using Cons.prems mset_swap[of j ind i] by simp
  then have l: "length ?ind' = length ind" by (metis mset_eq_length)
  have "mset (swap_inner B i js ?ind') = mset ?ind'"
    using Cons.prems l by (intro Cons.IH) auto
  then show ?case using m by simp
qed

lemma mset_swap_pass_fold:
  assumes "\<forall>i\<in>set is. i < length ind"
  shows "mset (fold (\<lambda>i ind. swap_inner B i [i + 1..<length ind] ind) is ind) = mset ind"
  using assms
proof (induction "is" arbitrary: ind)
  case Nil
  then show ?case by simp
next
  case (Cons i "is")
  have m: "mset (swap_inner B i [i + 1..<length ind] ind) = mset ind"
    using Cons.prems by (intro mset_swap_inner) auto
  then have "length (swap_inner B i [i + 1..<length ind] ind) = length ind"
    by (metis mset_eq_length)
  with Cons show ?case using m by simp
qed

lemma mset_swap_pass: "mset (swap_pass B ind) = mset ind"
  unfolding swap_pass_def by (rule mset_swap_pass_fold) auto


lemma canonical_rows_set:
  assumes "mset ind0 = mset [0..<length B]"
  shows "set (map (\<lambda>i. B ! (swap_pass B ind0 ! i)) [0..<n_rows B]) = set B"
proof -
  let ?ind = "swap_pass B ind0"
  have m: "mset ?ind = mset [0..<length B]" using assms by (simp add: mset_swap_pass)
  then have l: "length ?ind = length B" by (metis mset_eq_length length_upt diff_zero)
  from m have s: "set ?ind = {0..<length B}" by (metis mset_eq_setD set_upt)
  have "map (\<lambda>i. B ! (?ind ! i)) [0..<n_rows B] = map ((!) B) ?ind"
    unfolding n_rows_def l[symmetric] by (rule map_index[symmetric])
  then have "set (map (\<lambda>i. B ! (?ind ! i)) [0..<n_rows B]) = (!) B ` {0..<length B}"
    using s by simp
  also have "\<dots> = set B" using nth_image[of "length B" B] by simp
  finally show ?thesis .
qed

lemma approx_equal_sym: "approx_equal a b tol \<Longrightarrow> approx_equal b a tol"
  by (auto simp: approx_equal_def list_all2_conv_all_nth abs_minus_commute)


lemma rows_apart_step:
  assumes "rows_apart B"
  shows "rows_apart (if list_ex (\<lambda>rowB. approx_equal rowA rowB 0.002) B then B else B @ [rowA])"
proof (cases "list_ex (\<lambda>rowB. approx_equal rowA rowB 0.002) B")
  case True
  then show ?thesis using assms by simp
next
  case False
  then have n: "\<And>b. b \<in> set B \<Longrightarrow> \<not> approx_equal rowA b 0.002" by (simp add: list_ex_iff)
  have "approx_equal rowA rowA 0.002" by (simp add: approx_equal_refl)
  with n have "rowA \<notin> set B" by blast
  moreover have "\<And>b. b \<in> set B \<Longrightarrow> \<not> approx_equal b rowA 0.002"
    using n approx_equal_sym by blast
  ultimately show ?thesis using assms n False by (auto simp: rows_apart_def)
qed

lemma collect_rows_fold_apart:
  assumes "rows_apart B0"
  shows "rows_apart (fold (\<lambda>rowA B. if list_ex (\<lambda>rowB. approx_equal rowA rowB 0.002) B then B else B @ [rowA]) A B0)
       \<and> set (fold (\<lambda>rowA B. if list_ex (\<lambda>rowB. approx_equal rowA rowB 0.002) B then B else B @ [rowA]) A B0)
           \<subseteq> set B0 \<union> set A"
  using assms
proof (induction A arbitrary: B0)
  case Nil
  then show ?case by simp
next
  case (Cons a A)
  let ?B1 = "if list_ex (\<lambda>rowB. approx_equal a rowB 0.002) B0 then B0 else B0 @ [a]"
  have "rows_apart ?B1" using Cons.prems by (rule rows_apart_step)
  from Cons.IH[OF this] have "rows_apart (fold (\<lambda>rowA B. if list_ex (\<lambda>rowB. approx_equal rowA rowB 0.002) B then B else B @ [rowA]) A ?B1)"
    and "set (fold (\<lambda>rowA B. if list_ex (\<lambda>rowB. approx_equal rowA rowB 0.002) B then B else B @ [rowA]) A ?B1)
           \<subseteq> set ?B1 \<union> set A" by blast+
  moreover have "set ?B1 \<subseteq> set B0 \<union> {a}" by auto
  ultimately show ?case by (simp only: fold_simps) auto
qed

lemma collect_rows_apart: "rows_apart (collect_rows A)" and collect_rows_subset: "set (collect_rows A) \<subseteq> set A"
  using collect_rows_fold_apart[of "[]" A] by (simp_all add: collect_rows_def rows_apart_def)

lemma canonical_rows_distinct:
  assumes "mset ind0 = mset [0..<length B]" "distinct B"
  shows "distinct (map (\<lambda>i. B ! (swap_pass B ind0 ! i)) [0..<n_rows B])"
proof -
  let ?ind = "swap_pass B ind0"
  have m: "mset ?ind = mset [0..<length B]" using assms by (simp add: mset_swap_pass)
  then have l: "length ?ind = length B" by (metis mset_eq_length length_upt diff_zero)
  from m have s: "set ?ind = {0..<length B}" by (metis mset_eq_setD set_upt)
  from m have d: "distinct ?ind" by (metis distinct_upt mset_eq_imp_distinct_iff)
  have e: "map (\<lambda>i. B ! (?ind ! i)) [0..<n_rows B] = map ((!) B) ?ind"
    unfolding n_rows_def l[symmetric] by (rule map_index[symmetric])
  have "inj_on ((!) B) (set ?ind)"
    using assms(2) s by (intro inj_on_nth) auto
  then show ?thesis unfolding e using d by (simp add: distinct_map)
qed

lemma find_index_from_first:
  assumes "j < find_index_from i C rowA - i"
  shows "\<not> approx_equal rowA (C ! j) 0.002"
  using assms
proof (induction C arbitrary: i j)
  case Nil
  then show ?case by simp
next
  case (Cons rowC C)
  show ?case
  proof (cases "approx_equal rowA rowC 0.002")
    case True
    then show ?thesis using Cons.prems by simp
  next
    case False
    show ?thesis
    proof (cases j)
      case 0
      then show ?thesis using False by simp
    next
      case (Suc j')
      then have "j' < find_index_from (i + 1) C rowA - (i + 1)"
        using Cons.prems False by simp
      from Cons.IH[OF this] show ?thesis using Suc by simp
    qed
  qed
qed

lemma find_index_first: "k < find_index C rowA \<Longrightarrow> \<not> approx_equal rowA (C ! k) 0.002"
  using find_index_from_first[of k 0 C rowA] by (simp add: find_index_def)

lemma approx_equal_nth:
  assumes "approx_equal a b tol" "k < length a"
  shows "length b = length a" "\<bar>a ! k - b ! k\<bar> \<le> tol"
  using assms by (auto simp: approx_equal_def list_all2_conv_all_nth)

text \<open>
  Claim C3, amended. For a matrix with at least one row and one column (and an index sort
  that returns a permutation of the positions), row canonicalization returns and merges
  the rows down to representatives as follows. Every row is mapped to a representative
  that lies within 0.002 of it in every coordinate, and to the first such representative
  in the order of the output matrix. The representatives are rows of the input, each is
  the representative of itself, and no two of them lie within 0.002 of each other in
  every coordinate: rows that match are never both kept. Any two rows that differ by
  more than 0.004 in some coordinate are mapped to distinct representatives.
\<close>
theorem canonical_rows_within_tolerance:
  assumes "\<forall>v. mset (sort_index v) = mset [0..<length v]" and "0 < n_cols A"
  shows "\<exists>C ic. ic_unique_rows sort_index A = Inr (C, ic) \<and> length ic = n_rows A
           \<and> (\<forall>i<n_rows A. ic ! i < n_rows C \<and> approx_equal (A ! i) (C ! (ic ! i)) 0.002)
           \<and> (\<forall>i<n_rows A. \<forall>j<n_rows A.
                 (\<exists>k<length (A ! i). \<bar>A ! i ! k - A ! j ! k\<bar> > 0.004) \<longrightarrow> ic ! i \<noteq> ic ! j)
           \<and> (\<forall>i<n_rows A. \<forall>k<ic ! i. \<not> approx_equal (A ! i) (C ! k) 0.002)
           \<and> (\<forall>k<n_rows C. \<forall>k'<n_rows C. k \<noteq> k' \<longrightarrow> \<not> approx_equal (C ! k) (C ! k') 0.002)
           \<and> (\<forall>k<n_rows C. \<exists>i<n_rows A. A ! i = C ! k \<and> ic ! i = k)"
proof -
  let ?B = "collect_rows A"
  let ?C = "map (\<lambda>i. ?B ! (swap_pass ?B (sort_index (map (\<lambda>r. r ! 0) ?B)) ! i)) [0..<n_rows ?B]"
  let ?ic = "map (find_index ?C) A"
  have A: "A \<noteq> []" using assms(2) by (auto simp: n_cols_def)
  note B = collect_rows_props[OF A]
  have "n_cols ?B = n_cols A" using A B(1,2) by (cases A; cases ?B) (auto simp: n_cols_def)
  then have run: "ic_unique_rows sort_index A = Inr (?C, ?ic)"
    using B(1) assms(2) by (simp add: ic_unique_rows_def Let_def)
  have perm: "mset (sort_index (map (\<lambda>r. r ! 0) ?B)) = mset [0..<length ?B]"
    using assms(1) by (metis length_map)
  then have C: "set ?C = set ?B" by (rule canonical_rows_set)
  have near: "?ic ! i < n_rows ?C \<and> approx_equal (A ! i) (?C ! (?ic ! i)) 0.002"
    if "i < n_rows A" for i
  proof -
    have "\<exists>rowC\<in>set ?C. approx_equal (A ! i) rowC 0.002"
      using B(3) that unfolding C by (simp add: n_rows_def)
    from find_index_match[OF this]
    have "find_index ?C (A ! i) < length ?C"
      and "approx_equal (A ! i) (?C ! find_index ?C (A ! i)) 0.002" by blast+
    moreover have "?ic ! i = find_index ?C (A ! i)"
      using that by (simp only: n_rows_def nth_map)
    ultimately show ?thesis by (simp only: n_rows_def)
  qed
  have far: "?ic ! i \<noteq> ?ic ! j"
    if ij: "i < n_rows A" "j < n_rows A" and k: "\<exists>k<length (A ! i). \<bar>A ! i ! k - A ! j ! k\<bar> > 0.004" for i j
  proof
    assume e: "?ic ! i = ?ic ! j"
    from k obtain k where k: "k < length (A ! i)" "\<bar>A ! i ! k - A ! j ! k\<bar> > 0.004" by blast
    let ?c = "?C ! (?ic ! i)"
    from near[OF ij(1)] have ai: "approx_equal (A ! i) ?c 0.002" by (rule conjunct2)
    from near[OF ij(2)] have "approx_equal (A ! j) (?C ! (?ic ! j)) 0.002" by (rule conjunct2)
    then have aj: "approx_equal (A ! j) ?c 0.002" by (simp only: e)
    have li: "length ?c = length (A ! i)" and di: "\<bar>A ! i ! k - ?c ! k\<bar> \<le> 0.002"
      using approx_equal_nth[OF ai k(1)] by simp_all
    have "length (A ! j) = length ?c" using aj by (auto simp: approx_equal_def list_all2_lengthD)
    then have "k < length (A ! j)" using li k(1) by simp
    from approx_equal_nth(2)[OF aj this] have dj: "\<bar>A ! j ! k - ?c ! k\<bar> \<le> 0.002" .
    from di dj have "\<bar>A ! i ! k - A ! j ! k\<bar> \<le> 0.004" by linarith
    with k(2) show False by simp
  qed
  have first: "\<not> approx_equal (A ! i) (?C ! k) 0.002" if "i < n_rows A" "k < ?ic ! i" for i k
  proof -
    have "?ic ! i = find_index ?C (A ! i)"
      using that(1) by (simp only: n_rows_def nth_map)
    with that(2) have "k < find_index ?C (A ! i)" by (simp only:)
    then show ?thesis by (rule find_index_first)
  qed
  have dB: "distinct ?B"
    and aB: "\<And>x y. x \<in> set ?B \<Longrightarrow> y \<in> set ?B \<Longrightarrow> x \<noteq> y \<Longrightarrow> \<not> approx_equal x y 0.002"
    using collect_rows_apart[of A] unfolding rows_apart_def by blast+
  have dC: "distinct ?C" using perm dB by (rule canonical_rows_distinct)
  have lenC: "k < length ?C" if "k < n_rows ?C" for k
    using that unfolding n_rows_def .
  have memB: "?C ! k \<in> set ?B" if "k < n_rows ?C" for k
  proof -
    have "?C ! k \<in> set ?C" using lenC[OF that] by (rule nth_mem)
    then show ?thesis unfolding C .
  qed
  have apart: "\<not> approx_equal (?C ! k) (?C ! k') 0.002"
    if "k < n_rows ?C" "k' < n_rows ?C" "k \<noteq> k'" for k k'
  proof -
    have "?C ! k \<noteq> ?C ! k'"
      using nth_eq_iff_index_eq[OF dC lenC[OF that(1)] lenC[OF that(2)]] that(3) by blast
    then show ?thesis using memB[OF that(1)] memB[OF that(2)] by (intro aB)
  qed
  have onto: "\<exists>i<n_rows A. A ! i = ?C ! k \<and> ?ic ! i = k" if k: "k < n_rows ?C" for k
  proof -
    have "?C ! k \<in> set ?B" using k by (rule memB)
    then have "?C ! k \<in> set A" using collect_rows_subset[of A] by blast
    then obtain i where i: "i < length A" "A ! i = ?C ! k" by (auto simp: in_set_conv_nth)
    then have iA: "i < n_rows A" by (simp add: n_rows_def)
    from near[OF iA] have b: "?ic ! i < n_rows ?C"
      and m: "approx_equal (A ! i) (?C ! (?ic ! i)) 0.002" by blast+
    have "?ic ! i = k"
    proof (rule ccontr)
      assume "?ic ! i \<noteq> k"
      then have "k \<noteq> ?ic ! i" by simp
      from apart[OF k b this] m show False by (simp only: i(2))
    qed
    with iA i(2) show ?thesis by blast
  qed
  have "length ?ic = n_rows A" by (simp add: n_rows_def)
  with run near far first apart onto show ?thesis by blast
qed

lemma mset_stable_sort_index: "mset (stable_sort_index v) = mset [0..<length v]"
  by (simp add: stable_sort_index_def)

theorem canonical_rows_within_tolerance_witness:
  "(\<forall>v. mset (stable_sort_index v) = mset [0..<length v])
   \<and> 0 < n_cols [[0], [3/2000], [3/1000::real]]
   \<and> (\<exists>C ic. ic_unique_rows stable_sort_index [[0], [3/2000], [3/1000]] = Inr (C, ic)
          \<and> length ic = n_rows [[0], [3/2000], [3/1000::real]]
          \<and> (\<forall>i<n_rows [[0], [3/2000], [3/1000::real]].
                ic ! i < n_rows C \<and> approx_equal ([[0], [3/2000], [3/1000]] ! i) (C ! (ic ! i)) 0.002)
          \<and> (\<forall>i<n_rows [[0], [3/2000], [3/1000::real]]. \<forall>j<n_rows [[0], [3/2000], [3/1000::real]].
                (\<exists>k<length ([[0], [3/2000], [3/1000::real]] ! i).
                    \<bar>[[0], [3/2000], [3/1000::real]] ! i ! k - [[0], [3/2000], [3/1000]] ! j ! k\<bar> > 0.004)
                \<longrightarrow> ic ! i \<noteq> ic ! j)
          \<and> (\<forall>i<n_rows [[0], [3/2000], [3/1000::real]]. \<forall>k<ic ! i.
                \<not> approx_equal ([[0], [3/2000], [3/1000]] ! i) (C ! k) 0.002)
          \<and> (\<forall>k<n_rows C. \<forall>k'<n_rows C. k \<noteq> k' \<longrightarrow> \<not> approx_equal (C ! k) (C ! k') 0.002)
          \<and> (\<forall>k<n_rows C. \<exists>i<n_rows [[0], [3/2000], [3/1000::real]].
                [[0], [3/2000], [3/1000]] ! i = C ! k \<and> ic ! i = k))"
proof -
  have p: "\<forall>v. mset (stable_sort_index v) = mset [0..<length v]"
    using mset_stable_sort_index by blast
  have c: "0 < n_cols [[0], [3/2000], [3/1000::real]]" by (simp add: n_cols_def)
  show ?thesis
  proof (intro conjI)
    show "\<forall>v. mset (stable_sort_index v) = mset [0..<length v]" by (rule p)
    show "0 < n_cols [[0], [3/2000], [3/1000::real]]" by (rule c)
  qed (rule canonical_rows_within_tolerance[OF p c])
qed

text \<open>
  Claim C3 as stated fails in both directions, because matching within a tolerance is
  not transitive. In the first matrix rows 1 and 2 differ by 0.0015 and are mapped to
  distinct representatives (row 1 matches the representative 0, row 2 does not). In the
  second matrix rows 1 and 2 differ by 0.003 and are mapped to the same representative
  0.0015, which both match.
\<close>

theorem canonical_rows_counterexample:
  "ic_unique_rows stable_sort_index [[0], [3/2000], [3/1000]] = Inr ([[0], [3/1000]], [0, 0, 1])
   \<and> \<bar>3/2000 - 3/1000 :: real\<bar> < 0.002
   \<and> ic_unique_rows stable_sort_index [[3/2000], [0], [3/1000]] = Inr ([[3/2000]], [0, 0, 0])
   \<and> \<bar>0 - 3/1000 :: real\<bar> > 0.002"
  by code_simp

section \<open>Properties of the Frechet-Wasserstein engine\<close>


lemma vec_min_neg_iff: "vec_min xs < 0 \<longleftrightarrow> (\<exists>v\<in>set xs. v < 0)"
proof (cases xs)
  case Nil
  then show ?thesis by simp
next
  case (Cons x ys)
  have "vec_min xs = Min (set (x # ys))"
    unfolding Cons vec_min.simps by (rule Min.set_eq_fold[symmetric])
  then show ?thesis unfolding Cons by (simp add: Min_less_iff del: vec_min.simps)
qed

lemma flagged_rows_empty_iff:
  "filter (\<lambda>j. vec_min (qall ! j) < 0) [0..<n_rows qall] = []
   \<longleftrightarrow> \<not> (\<exists>row\<in>set qall. \<exists>v\<in>set row. v < 0)"
proof -
  have "(\<forall>x\<in>{0..<length qall}. \<forall>v\<in>set (qall ! x). \<not> v < 0) \<longleftrightarrow> (\<forall>row\<in>set qall. \<forall>v\<in>set row. \<not> v < 0)"
    by (metis atLeastLessThan_iff in_set_conv_nth zero_le)
  then show ?thesis
    by (simp add: filter_empty_conv vec_min_neg_iff n_rows_def) 
qed

lemma project_rows_Inr:
  assumes "project_rows quadprog t qdmin qall Q0all = Inr (used, qall', Q0all', out)"
  shows "(used = 1 \<longleftrightarrow> (\<exists>row\<in>set qall. \<exists>v\<in>set row. v < 0))
       \<and> (used \<noteq> 1 \<longrightarrow> used = 0 \<and> qall' = qall \<and> Q0all' = Q0all)"
proof (cases "filter (\<lambda>j. vec_min (qall ! j) < 0) [0..<n_rows qall] = []")
  case True
  then have "used = 0 \<and> qall' = qall \<and> Q0all' = Q0all"
    using assms by (simp add: project_rows_def Let_def)
  then show ?thesis using True flagged_rows_empty_iff[of qall] by simp
next
  case False
  then have "used = 1"
    using assms by (auto simp: project_rows_def Let_def bindE_Inr_iff split: prod.splits)
  then show ?thesis using False flagged_rows_empty_iff[of qall] by simp
qed

text \<open>
  Claim C7. Whenever the engine returns, \<open>QP_used\<close> is 1 exactly when the least-squares
  prediction of the quantile density at some canonical covariate row has a negative
  entry; otherwise \<open>QP_used\<close> is 0 and the fitted and predicted quantile densities are
  the least-squares predictions at the rows the index vector selects.
\<close>
theorem QP_used_iff_negative_ols_entry:
  assumes "wasserstein_regression sort_index solve quadprog xfit' q Q0 xpred' t qdmin = Inr (res, out)"
  shows "\<exists>xall ic qall Q0all.
           ols_all sort_index solve xfit' q Q0 xpred' = Inr (xall, ic, qall, Q0all)
         \<and> (QP_used res = 1 \<longleftrightarrow> (\<exists>row\<in>set qall. \<exists>v\<in>set row. v < 0))
         \<and> (QP_used res \<noteq> 1 \<longrightarrow>
               QP_used res = 0
             \<and> qfit res = map ((!) qall) (take (n_rows q) (drop (n_rows xpred') ic))
             \<and> qpred res = map ((!) qall) (take (n_rows xpred') ic))"
proof -
  from assms obtain xall ic qall0 Q0all0 used qall Q0all out' Qall where
    ols: "ols_all sort_index solve xfit' q Q0 xpred' = Inr (xall, ic, qall0, Q0all0)"
    and prj: "project_rows quadprog t qdmin qall0 Q0all0 = Inr (used, qall, Q0all, out')"
    and res: "QP_used res = used"
      "qfit res = map ((!) qall) (take (n_rows q) (drop (n_rows xpred') ic))"
      "qpred res = map ((!) qall) (take (n_rows xpred') ic)"
    by (auto simp: wasserstein_regression_def Let_def bindE_Inr_iff
             split: option.splits prod.splits if_splits)
  from project_rows_Inr[OF prj] res ols show ?thesis by auto
qed


theorem QP_used_iff_negative_ols_entry_witness:
  "wasserstein_regression stable_sort_index solve2 (\<lambda>D d V v. None)
       [[0], [1]] [[1, 1], [2, 2]] [[0], [1]] [[0]] [0, 1] (1/1000000)
     = Inr (\<lparr>xfit = [[0], [1]], xpred = [[0]], Qfit = [[0, 1], [1, 3]], Qpred = [[0, 1]],
             qfit = [[1, 1], [2, 2]], qpred = [[1, 1]], ffit = [[1, 1], [1/2, 1/2]],
             fpred = [[1, 1]], QP_used = 0\<rparr>, [])
   \<and> (\<exists>xall ic qall Q0all.
         ols_all stable_sort_index solve2 [[0], [1]] [[1, 1], [2, 2]] [[0], [1]] [[0]]
           = Inr (xall, ic, qall, Q0all)
       \<and> \<not> (\<exists>row\<in>set qall. \<exists>v\<in>set row. v < 0)
       \<and> [[1, 1], [2, 2]] = map ((!) qall) (take (n_rows [[1, 1], [2, 2::real]]) (drop (n_rows [[0::real]]) ic))
       \<and> [[1, 1]] = map ((!) qall) (take (n_rows [[0::real]]) ic))"
proof -
  have run: "wasserstein_regression stable_sort_index solve2 (\<lambda>D d V v. None)
       [[0], [1]] [[1, 1], [2, 2]] [[0], [1]] [[0]] [0, 1] (1/1000000)
     = Inr (\<lparr>xfit = [[0], [1]], xpred = [[0]], Qfit = [[0, 1], [1, 3]], Qpred = [[0, 1]],
             qfit = [[1, 1], [2, 2]], qpred = [[1, 1]], ffit = [[1, 1], [1/2, 1/2]],
             fpred = [[1, 1]], QP_used = 0\<rparr>, [])"
    by code_simp
  from QP_used_iff_negative_ols_entry[OF run] run show ?thesis by simp
qed

text \<open>
  When the solver throws on a flagged row, the loop body writes the warning and replaces
  the row of \<open>qall\<close> by zeros and the entry of \<open>Q0all\<close> by zero.
\<close>

lemma qp_row_solver_failure:
  assumes "quadprog D
             (scale_vec (- 1) ((Q0all ! j + dot c (qall ! j))
                               # plus_vec (scale_vec (Q0all ! j) c) (mat_vec C (qall ! j))))
             (V1 @ V2 @ scale_mat (- 1) V2)
             (v1 @ scale_vec 1.5 (map abs (diff_vec (qall ! j)))
                 @ scale_vec 1.5 (map abs (diff_vec (qall ! j)))) = None"
    and "length (qall ! j) = length c" and "length C = length c" and "c \<noteq> []"
  shows "qp_row quadprog c C D V1 v1 V2 j (qall, Q0all, out) =
         Inr (qall[j := replicate (length c) 0], Q0all[j := 0],
              out @ [''WARNING: An error has occurred during the quadratic optimization...''])"
proof -
  let ?d = "scale_vec (- 1) ((Q0all ! j + dot c (qall ! j))
                               # plus_vec (scale_vec (Q0all ! j) c) (mat_vec C (qall ! j)))"
  have l: "length ?d = Suc (length c)"
    using assms(3) by (simp add: plus_vec_def scale_vec_def mat_vec_def)
  have c: "0 < length c" using assms(4) by simp
  show ?thesis
    unfolding qp_row_def Let_def prod.case assms(1) option.case l
    using assms(2) c by (simp add: drop_Cons')
qed

text \<open>
  Claim C1 on a concrete run. Two fit rows with covariates 0 and 1 and quantile densities
  \<open>(1, 1)\<close> and \<open>(-1, -1)\<close> on the grid \<open>(0, 1)\<close>; the least-squares prediction at the
  canonical row 1 is \<open>(-1, -1)\<close>, so the row is flagged; the solver throws. The warning is
  written and the call returns, but the fitted quantile density of that row is
  \<open>(0, 0)\<close> and its quantile function \<open>(0, 0)\<close>: the zero-filled \<open>tmp\<close> has been copied
  into the row, where the claim keeps the least-squares values \<open>(-1, -1)\<close>.
\<close>
theorem failed_projection_zeroes_row:
  "ols_all stable_sort_index solve2 [[0], [1]] [[1, 1], [- 1, - 1]] [[0], [1]] [[0]]
     = Inr ([[0], [1/2], [1]], [0, 0, 2, 1], [[1, 1], [0, 0], [- 1, - 1]], [0, 1/2, 1])
   \<and> (case wasserstein_regression stable_sort_index solve2 (\<lambda>D d V v. None)
              [[0], [1]] [[1, 1], [- 1, - 1]] [[0], [1]] [[0]] [0, 1] (1/1000000) of
         Inl e \<Rightarrow> None
       | Inr (res, out) \<Rightarrow> Some (qfit res, Qfit res, QP_used res, out))
     = Some ([[1, 1], [0, 0]], [[0, 1], [0, 0]], 1,
             [''WARNING: An error has occurred during the quadratic optimization...''])"
  by code_simp

text \<open>
  Claim C2 on a concrete run. The grid \<open>(0, 2, 1)\<close> starts at 0, ends at 1, has one
  entry per column of \<open>q\<close> and is not increasing. The two tests on the grid pass and the
  engine fits and returns, where the claim requires a failure; the tests look only at
  the length and the two end points.
\<close>
theorem unordered_grid_is_accepted:
  "wasserstein_regression stable_sort_index solve2 (\<lambda>D d V v. None)
        [[0], [1]] [[1, 1, 1], [2, 2, 2]] [[0], [1]] [[0]] [0, 2, 1] (1/1000000)
     = Inr (\<lparr>xfit = [[0], [1]], xpred = [[0]], Qfit = [[0, 2, 1], [1, 5, 3]],
             Qpred = [[0, 2, 1]], qfit = [[1, 1, 1], [2, 2, 2]], qpred = [[1, 1, 1]],
             ffit = [[1, 1, 1], [1/2, 1/2, 1/2]], fpred = [[1, 1, 1]], QP_used = 0\<rparr>, [])"
  by code_simp

text \<open>
  What the two tests do reject, and that they come before everything else.
\<close>

lemma check_grid_unordered: "check_grid [[1, 1, 1], [2, 2, 2]] [0, 2, 1] = None"
  by (simp add: check_grid_def n_cols_def)

lemma check_grid_rejects:
  "length t \<noteq> n_cols q \<Longrightarrow> check_grid q t = Some ShapeMismatch"
  "length t = n_cols q \<Longrightarrow> t \<noteq> [] \<Longrightarrow> hd t \<noteq> 0 \<or> last t \<noteq> 1 \<Longrightarrow> check_grid q t = Some InvalidGrid"
  by (auto simp: check_grid_def Let_def hd_conv_nth last_conv_nth)

lemma wasserstein_regression_check_first:
  "check_grid q t = Some e \<Longrightarrow>
   wasserstein_regression sort_index solve quadprog xfit' q Q0 xpred' t qdmin = Inl e"
  by (simp add: wasserstein_regression_def Let_def)


end
